theory Spec2Isabelle
  imports Complex_Main
begin

section \<open>Scalars, vectors and matrices\<close>

text \<open>
  The library is a template over \<open>Scalar_\<close>.  The first part of the development
  instantiates the scalar with the exact reals: it settles which computation the code
  performs (which stencil, which default, which entries are equal as formulas).  What
  the code returns on machine numbers is the subject of the second part, which
  instantiates the scalar with the doubles.
  A \<open>VectorType\<close> is the list of its coefficients, a matrix the list of its rows.
\<close>

type_synonym Scalar = real
type_synonym VectorType = "Scalar list"
type_synonym SquareMatrixType = "Scalar list list"

text \<open>
  Conditions under which the C++ code has no defined result (a failed index or size
  assertion of the linear-algebra library, an index past a stencil table) are values
  of the model.
\<close>

datatype error = InvalidAccuracy | IndexOutOfRange | SizeMismatch

definition rows :: "SquareMatrixType \<Rightarrow> nat" where
  "rows A = length A"

definition has_cols :: "nat \<Rightarrow> SquareMatrixType \<Rightarrow> bool" where
  "has_cols n A = list_all (\<lambda>row. length row = n) A"

definition coeffRef :: "SquareMatrixType \<Rightarrow> nat \<Rightarrow> nat \<Rightarrow> Scalar" where
  "coeffRef A i j = A ! i ! j"

definition set_coeff :: "SquareMatrixType \<Rightarrow> nat \<Rightarrow> nat \<Rightarrow> Scalar \<Rightarrow> SquareMatrixType" where
  "set_coeff A i j v = A[i := (A ! i)[j := v]]"

section \<open>The Problem class\<close>

text \<open>
  \<open>value\<close> is pure virtual; \<open>gradient\<close> and \<open>hessian\<close> are virtual with a default
  body.  An object is its method table: the objective, and the overriding bodies of a
  derived class where it has them.  An override assigns the whole out-parameter from
  \<open>x\<close> (as the example problems do), so it is a function of \<open>x\<close>.
\<close>

record Problem =
  value_fn :: "VectorType \<Rightarrow> Scalar"
  gradient_override :: "(VectorType \<Rightarrow> VectorType) option"
  hessian_override :: "(VectorType \<Rightarrow> SquareMatrixType) option"

subsection \<open>finiteGradient\<close>

definition eps_gradient :: Scalar where
  "eps_gradient = 22204 / 10 ^ 10"

definition coeff :: "Scalar list list" where
  "coeff = [[1, -1], [1, -8, 8, -1], [-1, 9, -45, 45, -9, 1],
            [3, -32, 168, -672, 672, -168, 32, -3]]"

definition coeff2 :: "Scalar list list" where
  "coeff2 = [[1, -1], [-2, -1, 1, 2], [-3, -2, -1, 1, 2, 3],
             [-4, -3, -2, -1, 1, 2, 3, 4]]"

definition dd :: "Scalar list" where
  "dd = [2, 12, 60, 840]"

text \<open>
  The body of the loop over \<open>d\<close>: the inner loop over the stencil index \<open>s\<close> adds to
  \<open>finiteDiff[d]\<close>, starting from 0, and the sum is divided afterwards.  Each pass
  perturbs a fresh copy \<open>xx\<close> of \<open>x\<close>.
\<close>

definition finiteDiff_at :: "Problem \<Rightarrow> VectorType \<Rightarrow> nat \<Rightarrow> nat \<Rightarrow> Scalar" where
  "finiteDiff_at P x accuracy d =
     fold (\<lambda>s acc.
             let xx = x;
                 xx = xx[d := xx ! d + coeff2 ! accuracy ! s * eps_gradient]
             in acc + coeff ! accuracy ! s * value_fn P xx)
          [0 ..< 2 * (accuracy + 1)] 0
     / (dd ! accuracy * eps_gradient)"

text \<open>
  \<open>accuracy\<close> is a C++ \<open>int\<close>.  With no coordinate the loop body never runs; otherwise
  an accuracy outside 0..3 indexes past the tables.  The result is the vector assigned
  to the out-parameter \<open>grad\<close>.
\<close>

definition finiteGradient :: "Problem \<Rightarrow> VectorType \<Rightarrow> int \<Rightarrow> error + VectorType" where
  "finiteGradient P x accuracy =
     (if x = [] then Inr []
      else if 0 \<le> accuracy \<and> accuracy \<le> 3
      then Inr (map (finiteDiff_at P x (nat accuracy)) [0 ..< length x])
      else Inl InvalidAccuracy)"

subsection \<open>finiteHessian\<close>

text \<open>\<open>std::numeric_limits<Scalar>::epsilon()\<close> of the scalar type \<open>double\<close> used by the examples.\<close>

definition machine_epsilon :: Scalar where
  "machine_epsilon = 1 / 2 ^ 52"

definition eps_hessian :: Scalar where
  "eps_hessian = machine_epsilon * 10 ^ 8"

text \<open>The accuracy-0 branch: one copy \<open>xx\<close> is moved in place through the four sample points.\<close>

definition hessian_entry0 :: "Problem \<Rightarrow> VectorType \<Rightarrow> nat \<Rightarrow> nat \<Rightarrow> Scalar" where
  "hessian_entry0 P x i j =
     (let eps = eps_hessian;
          xx = x;
          f4 = value_fn P xx;
          xx = xx[i := xx ! i + eps];
          xx = xx[j := xx ! j + eps];
          f1 = value_fn P xx;
          xx = xx[j := xx ! j - eps];
          f2 = value_fn P xx;
          xx = xx[j := xx ! j + eps];
          xx = xx[i := xx ! i - eps];
          f3 = value_fn P xx
      in (f1 - f2 - f3 + f4) / (eps * eps))"

text \<open>One sample point of the other branch: \<open>xx = x.eval(); xx[i] += a*eps; xx[j] += b*eps\<close>.\<close>

definition sample :: "VectorType \<Rightarrow> nat \<Rightarrow> Scalar \<Rightarrow> nat \<Rightarrow> Scalar \<Rightarrow> VectorType" where
  "sample x i a j b =
     (let xx = x;
          xx = xx[i := xx ! i + a * eps_hessian];
          xx = xx[j := xx ! j + b * eps_hessian]
      in xx)"

definition hessian_entry5 :: "Problem \<Rightarrow> VectorType \<Rightarrow> nat \<Rightarrow> nat \<Rightarrow> Scalar" where
  "hessian_entry5 P x i j =
     (let eps = eps_hessian;
          f = value_fn P;
          term_1 = 0 + f (sample x i 1 j (-2)) + f (sample x i 2 j (-1))
                     + f (sample x i (-2) j 1) + f (sample x i (-1) j 2);
          term_2 = 0 + f (sample x i (-1) j (-2)) + f (sample x i (-2) j (-1))
                     + f (sample x i 1 j 2) + f (sample x i 2 j 1);
          term_3 = 0 + f (sample x i 2 j (-2)) + f (sample x i (-2) j 2)
                     - f (sample x i (-2) j (-2)) - f (sample x i 2 j 2);
          term_4 = 0 + f (sample x i (-1) j (-1)) + f (sample x i 1 j 1)
                     - f (sample x i 1 j (-1)) - f (sample x i (-1) j 1)
      in (-63 * term_1 + 63 * term_2 + 44 * term_3 + 74 * term_4) / (600 * eps * eps))"

definition hessian_entry :: "Problem \<Rightarrow> VectorType \<Rightarrow> int \<Rightarrow> nat \<Rightarrow> nat \<Rightarrow> Scalar" where
  "hessian_entry P x accuracy i j =
     (if accuracy = 0 then hessian_entry0 P x i j else hessian_entry5 P x i j)"

text \<open>
  The two loops assign \<open>hessian(i, j)\<close> for all \<open>i, j < x.rows()\<close> in the matrix the
  caller passed; the matrix must have those coefficients.
\<close>

definition finiteHessian ::
  "Problem \<Rightarrow> VectorType \<Rightarrow> SquareMatrixType \<Rightarrow> int \<Rightarrow> error + SquareMatrixType" where
  "finiteHessian P x hessian accuracy =
     (let D = length x in
      if D \<le> rows hessian \<and> list_all (\<lambda>row. D \<le> length row) (take D hessian)
      then Inr (fold (\<lambda>i H. fold (\<lambda>j H. set_coeff H i j (hessian_entry P x accuracy i j))
                               [0 ..< D] H)
                     [0 ..< D] hessian)
      else Inl IndexOutOfRange)"

subsection \<open>gradient and hessian: virtual, defaulting to finite differences\<close>

definition gradient :: "Problem \<Rightarrow> VectorType \<Rightarrow> error + VectorType" where
  "gradient P x =
     (case gradient_override P of
        Some g \<Rightarrow> Inr (g x)
      | None \<Rightarrow> finiteGradient P x 0)"

definition hessian ::
  "Problem \<Rightarrow> VectorType \<Rightarrow> SquareMatrixType \<Rightarrow> error + SquareMatrixType" where
  "hessian P x H =
     (case hessian_override P of
        Some h \<Rightarrow> Inr (h x)
      | None \<Rightarrow> finiteHessian P x H 0)"

text \<open>\<open>SquareMatrixType::Zero(r, c)\<close>, the matrix \<open>checkHessian\<close> passes to \<open>hessian\<close> and
  \<open>finiteHessian\<close>.\<close>

definition Zero :: "nat \<Rightarrow> nat \<Rightarrow> SquareMatrixType" where
  "Zero r c = replicate r (replicate c 0)"

section \<open>Box constraints\<close>

text \<open>
  Bound vectors hold IEEE infinities, which the reals lack: their coefficients range over
  the scalars extended by the two infinities.  \<open>infinity\<close> is
  \<open>std::numeric_limits<Scalar>::infinity()\<close> and \<open>negate\<close> the unary minus.
\<close>

datatype BoundScalar = MinusInfinity | Finite Scalar | PlusInfinity

definition infinity :: BoundScalar where
  "infinity = PlusInfinity"

fun negate :: "BoundScalar \<Rightarrow> BoundScalar" where
  "negate MinusInfinity = PlusInfinity"
| "negate (Finite v) = Finite (- v)"
| "negate PlusInfinity = MinusInfinity"

text \<open>
  The data members of \<open>Problem\<close>, and \<open>BoundedProblem\<close> deriving from it with bound vectors of
  its own.  \<open>Dim_\<close> is the template parameter, \<open>Eigen::Dynamic\<close> being -1: a
  default-constructed vector has \<open>Dim_\<close> rows, none when dynamic.  Its coefficients are not
  initialised; \<open>junk\<close> stands for what the storage holds.
\<close>

record Problem_members =
  hasLowerBound_ :: bool
  hasUpperBound_ :: bool
  lowerBound_ :: "BoundScalar list"
  upperBound_ :: "BoundScalar list"

record BoundedProblem_members = Problem_members +
  m_lowerBound :: "BoundScalar list"
  m_upperBound :: "BoundScalar list"

definition Dynamic :: int where
  "Dynamic = - 1"

definition default_vector :: "int \<Rightarrow> (nat \<Rightarrow> BoundScalar) \<Rightarrow> BoundScalar list" where
  "default_vector Dim junk = map junk [0 ..< (if Dim = Dynamic then 0 else nat Dim)]"

definition setConstant :: "BoundScalar list \<Rightarrow> BoundScalar \<Rightarrow> BoundScalar list" where
  "setConstant v a = map (\<lambda>_. a) v"

definition BoundedProblem :: "int \<Rightarrow> (nat \<Rightarrow> BoundScalar) \<Rightarrow> BoundedProblem_members" where
  "BoundedProblem Dim junk =
     \<lparr>hasLowerBound_ = False, hasUpperBound_ = False,
      lowerBound_ = default_vector Dim junk, upperBound_ = default_vector Dim junk,
      m_lowerBound = setConstant (default_vector Dim junk) (negate infinity),
      m_upperBound = setConstant (default_vector Dim junk) infinity\<rparr>"

text \<open>The accessors of \<open>BoundedProblem\<close>, which hide those of \<open>Problem\<close>.\<close>

definition lowerBound :: "BoundedProblem_members \<Rightarrow> BoundScalar list" where
  "lowerBound p = m_lowerBound p"

definition upperBound :: "BoundedProblem_members \<Rightarrow> BoundScalar list" where
  "upperBound p = m_upperBound p"

definition setLowerBound :: "BoundScalar list \<Rightarrow> BoundedProblem_members \<Rightarrow> BoundedProblem_members" where
  "setLowerBound lb p = p\<lparr>m_lowerBound := lb\<rparr>"

definition setUpperBound :: "BoundScalar list \<Rightarrow> BoundedProblem_members \<Rightarrow> BoundedProblem_members" where
  "setUpperBound ub p = p\<lparr>m_upperBound := ub\<rparr>"

definition setBoxConstraint ::
  "BoundScalar list \<Rightarrow> BoundScalar list \<Rightarrow> BoundedProblem_members \<Rightarrow> BoundedProblem_members" where
  "setBoxConstraint lb ub p = setUpperBound ub (setLowerBound lb p)"

section \<open>Double-precision scalars\<close>

text \<open>
  The examples instantiate \<open>Scalar_\<close> with \<open>double\<close>, the IEEE 754 binary64 format with
  round-to-nearest-even, each operation rounded once (no fused multiply-add, no extended
  intermediate precision).  A double is a finite number, one of the two infinities, or
  NaN.  The finite doubles are the reals \<open>m * 2^e\<close> with \<open>m\<close> an integer, \<open>|m| < 2^53\<close> and
  \<open>-1074 \<le> e \<le> 971\<close>.  The two zeros are one value here: they compare equal, and the
  model divides by zero as by \<open>+0\<close>.
\<close>

datatype double = Num real | PInf | NInf | NaN

text \<open>
  Rounding a real to the nearest double.  The magnitude is brought to \<open>m * 2^e\<close> with
  \<open>2^52 \<le> m < 2^53\<close>, or with \<open>e = -1074\<close> and \<open>m < 2^52\<close> in the subnormal range, by
  binary shifts; \<open>m\<close> is then rounded to the nearest integer, ties to even.  An exponent
  past the largest double rounds to an infinity.
\<close>

definition scale_down :: "nat \<Rightarrow> real \<times> int \<Rightarrow> real \<times> int" where
  "scale_down k me = (case me of (m, e) \<Rightarrow>
     if 2 ^ 52 \<le> m / 2 ^ k then (m / 2 ^ k, e + int k) else (m, e))"

definition scale_up :: "nat \<Rightarrow> real \<times> int \<Rightarrow> real \<times> int" where
  "scale_up k me = (case me of (m, e) \<Rightarrow>
     if m * 2 ^ k < 2 ^ 53 \<and> - 1074 \<le> e - int k then (m * 2 ^ k, e - int k) else (m, e))"

definition shifts :: "nat list" where
  "shifts = [1024, 512, 256, 128, 64, 32, 16, 8, 4, 2, 1]"

definition normalise :: "real \<Rightarrow> real \<times> int" where
  "normalise m = fold scale_up shifts (fold scale_down shifts (m, 0))"

definition pow2 :: "int \<Rightarrow> real" where
  "pow2 e = (if 0 \<le> e then 2 ^ nat e else 1 / 2 ^ nat (- e))"

definition round_to_even :: "real \<Rightarrow> int" where
  "round_to_even y =
     (let f = \<lfloor>y\<rfloor> in
      if y - of_int f < 1 / 2 then f
      else if 1 / 2 < y - of_int f then f + 1
      else if even f then f else f + 1)"

definition round_double :: "real \<Rightarrow> real" where
  "round_double r =
     (if r = 0 then 0
      else case normalise \<bar>r\<bar> of (m, e) \<Rightarrow> sgn r * (of_int (round_to_even m) * pow2 e))"

definition rnd :: "real \<Rightarrow> double" where
  "rnd r = (let y = round_double r in
            if 2 ^ 1024 \<le> y then PInf else if y \<le> - (2 ^ 1024) then NInf else Num y)"

definition signed_inf :: "bool \<Rightarrow> double" where
  "signed_inf positive = (if positive then PInf else NInf)"

text \<open>
  The arithmetic and the comparisons of C++ on doubles.  An operation on finite operands
  is the exact operation rounded; NaN is absorbing; a comparison with a NaN operand is
  false.
\<close>

instantiation double :: "{zero, one, plus, uminus, minus, times, inverse, abs, ord}"
begin

definition zero_double :: double where
  "zero_double = Num 0"

definition one_double :: double where
  "one_double = Num 1"

fun plus_double :: "double \<Rightarrow> double \<Rightarrow> double" where
  "plus_double (Num a) (Num b) = rnd (a + b)"
| "plus_double NaN y = NaN"
| "plus_double x NaN = NaN"
| "plus_double PInf NInf = NaN"
| "plus_double NInf PInf = NaN"
| "plus_double PInf y = PInf"
| "plus_double x PInf = PInf"
| "plus_double NInf y = NInf"
| "plus_double x NInf = NInf"

fun uminus_double :: "double \<Rightarrow> double" where
  "uminus_double (Num a) = Num (- a)"
| "uminus_double PInf = NInf"
| "uminus_double NInf = PInf"
| "uminus_double NaN = NaN"

definition minus_double :: "double \<Rightarrow> double \<Rightarrow> double" where
  "minus_double x y = x + (- y)"

fun times_double :: "double \<Rightarrow> double \<Rightarrow> double" where
  "times_double (Num a) (Num b) = rnd (a * b)"
| "times_double NaN y = NaN"
| "times_double x NaN = NaN"
| "times_double (Num a) PInf = (if a = 0 then NaN else signed_inf (0 < a))"
| "times_double (Num a) NInf = (if a = 0 then NaN else signed_inf (a < 0))"
| "times_double PInf (Num b) = (if b = 0 then NaN else signed_inf (0 < b))"
| "times_double NInf (Num b) = (if b = 0 then NaN else signed_inf (b < 0))"
| "times_double PInf PInf = PInf"
| "times_double PInf NInf = NInf"
| "times_double NInf PInf = NInf"
| "times_double NInf NInf = PInf"

fun divide_double :: "double \<Rightarrow> double \<Rightarrow> double" where
  "divide_double (Num a) (Num b) =
     (if b = 0 then (if a = 0 then NaN else signed_inf (0 < a)) else rnd (a / b))"
| "divide_double NaN y = NaN"
| "divide_double x NaN = NaN"
| "divide_double (Num a) y = Num 0"
| "divide_double PInf (Num b) = signed_inf (0 \<le> b)"
| "divide_double NInf (Num b) = signed_inf (b < 0)"
| "divide_double x y = NaN"

definition inverse_double :: "double \<Rightarrow> double" where
  "inverse_double x = divide (Num 1) x"

fun abs_double :: "double \<Rightarrow> double" where
  "abs_double (Num a) = Num \<bar>a\<bar>"
| "abs_double PInf = PInf"
| "abs_double NInf = PInf"
| "abs_double NaN = NaN"

fun less_double :: "double \<Rightarrow> double \<Rightarrow> bool" where
  "less_double (Num a) (Num b) = (a < b)"
| "less_double NaN y = False"
| "less_double x NaN = False"
| "less_double x NInf = False"
| "less_double PInf y = False"
| "less_double x y = True"

fun less_eq_double :: "double \<Rightarrow> double \<Rightarrow> bool" where
  "less_eq_double (Num a) (Num b) = (a \<le> b)"
| "less_eq_double NaN y = False"
| "less_eq_double x NaN = False"
| "less_eq_double NInf y = True"
| "less_eq_double x PInf = True"
| "less_eq_double x y = False"

instance ..

end

text \<open>\<open>std::max(a, b)\<close> is \<open>(a < b) ? b : a\<close>.\<close>

definition std_max :: "double \<Rightarrow> double \<Rightarrow> double" where
  "std_max a b = (if a < b then b else a)"

section \<open>The Problem class over doubles\<close>

text \<open>
  The same bodies as above with the scalar a double: every constant, sum, product and
  quotient is the rounded one, in the order the source writes them.  A decimal literal
  is the double nearest to it; the integer entries of the stencil tables convert exactly.
\<close>

type_synonym Vector_fp = "double list"
type_synonym Matrix_fp = "double list list"

record Problem_fp =
  value_fp :: "Vector_fp \<Rightarrow> double"
  gradient_override_fp :: "(Vector_fp \<Rightarrow> Vector_fp) option"
  hessian_override_fp :: "(Vector_fp \<Rightarrow> Matrix_fp) option"

definition eps_gradient_fp :: double where
  "eps_gradient_fp = rnd (22204 / 10 ^ 10)"

definition finiteDiff_at_fp :: "Problem_fp \<Rightarrow> Vector_fp \<Rightarrow> nat \<Rightarrow> nat \<Rightarrow> double" where
  "finiteDiff_at_fp P x accuracy d =
     fold (\<lambda>s acc.
             let xx = x;
                 xx = xx[d := xx ! d + Num (coeff2 ! accuracy ! s) * eps_gradient_fp]
             in acc + Num (coeff ! accuracy ! s) * value_fp P xx)
          [0 ..< 2 * (accuracy + 1)] 0
     / (Num (dd ! accuracy) * eps_gradient_fp)"

definition finiteGradient_fp :: "Problem_fp \<Rightarrow> Vector_fp \<Rightarrow> int \<Rightarrow> error + Vector_fp" where
  "finiteGradient_fp P x accuracy =
     (if x = [] then Inr []
      else if 0 \<le> accuracy \<and> accuracy \<le> 3
      then Inr (map (finiteDiff_at_fp P x (nat accuracy)) [0 ..< length x])
      else Inl InvalidAccuracy)"

text \<open>\<open>epsilon()\<close> is \<open>2^-52\<close> and the literal \<open>10e7\<close> is \<open>10^8\<close>.\<close>

definition eps_hessian_fp :: double where
  "eps_hessian_fp = Num (1 / 2 ^ 52) * rnd (10 ^ 8)"

definition hessian_entry0_fp :: "Problem_fp \<Rightarrow> Vector_fp \<Rightarrow> nat \<Rightarrow> nat \<Rightarrow> double" where
  "hessian_entry0_fp P x i j =
     (let eps = eps_hessian_fp;
          xx = x;
          f4 = value_fp P xx;
          xx = xx[i := xx ! i + eps];
          xx = xx[j := xx ! j + eps];
          f1 = value_fp P xx;
          xx = xx[j := xx ! j - eps];
          f2 = value_fp P xx;
          xx = xx[j := xx ! j + eps];
          xx = xx[i := xx ! i - eps];
          f3 = value_fp P xx
      in (f1 - f2 - f3 + f4) / (eps * eps))"

definition sample_fp :: "Vector_fp \<Rightarrow> nat \<Rightarrow> real \<Rightarrow> nat \<Rightarrow> real \<Rightarrow> Vector_fp" where
  "sample_fp x i a j b =
     (let xx = x;
          xx = xx[i := xx ! i + Num a * eps_hessian_fp];
          xx = xx[j := xx ! j + Num b * eps_hessian_fp]
      in xx)"

definition hessian_entry5_fp :: "Problem_fp \<Rightarrow> Vector_fp \<Rightarrow> nat \<Rightarrow> nat \<Rightarrow> double" where
  "hessian_entry5_fp P x i j =
     (let eps = eps_hessian_fp;
          f = value_fp P;
          term_1 = 0 + f (sample_fp x i 1 j (-2)) + f (sample_fp x i 2 j (-1))
                     + f (sample_fp x i (-2) j 1) + f (sample_fp x i (-1) j 2);
          term_2 = 0 + f (sample_fp x i (-1) j (-2)) + f (sample_fp x i (-2) j (-1))
                     + f (sample_fp x i 1 j 2) + f (sample_fp x i 2 j 1);
          term_3 = 0 + f (sample_fp x i 2 j (-2)) + f (sample_fp x i (-2) j 2)
                     - f (sample_fp x i (-2) j (-2)) - f (sample_fp x i 2 j 2);
          term_4 = 0 + f (sample_fp x i (-1) j (-1)) + f (sample_fp x i 1 j 1)
                     - f (sample_fp x i 1 j (-1)) - f (sample_fp x i (-1) j 1)
      in (Num (- 63) * term_1 + Num 63 * term_2 + Num 44 * term_3 + Num 74 * term_4)
         / (Num 600 * eps * eps))"

definition hessian_entry_fp :: "Problem_fp \<Rightarrow> Vector_fp \<Rightarrow> int \<Rightarrow> nat \<Rightarrow> nat \<Rightarrow> double" where
  "hessian_entry_fp P x accuracy i j =
     (if accuracy = 0 then hessian_entry0_fp P x i j else hessian_entry5_fp P x i j)"

definition set_coeff_fp :: "Matrix_fp \<Rightarrow> nat \<Rightarrow> nat \<Rightarrow> double \<Rightarrow> Matrix_fp" where
  "set_coeff_fp A i j v = A[i := (A ! i)[j := v]]"

definition finiteHessian_fp ::
  "Problem_fp \<Rightarrow> Vector_fp \<Rightarrow> Matrix_fp \<Rightarrow> int \<Rightarrow> error + Matrix_fp" where
  "finiteHessian_fp P x hess accuracy =
     (let D = length x in
      if D \<le> length hess \<and> list_all (\<lambda>row. D \<le> length row) (take D hess)
      then Inr (fold (\<lambda>i H. fold (\<lambda>j H. set_coeff_fp H i j (hessian_entry_fp P x accuracy i j))
                               [0 ..< D] H)
                     [0 ..< D] hess)
      else Inl IndexOutOfRange)"

definition gradient_fp :: "Problem_fp \<Rightarrow> Vector_fp \<Rightarrow> error + Vector_fp" where
  "gradient_fp P x =
     (case gradient_override_fp P of
        Some g \<Rightarrow> Inr (g x)
      | None \<Rightarrow> finiteGradient_fp P x 0)"

definition hessian_fp :: "Problem_fp \<Rightarrow> Vector_fp \<Rightarrow> Matrix_fp \<Rightarrow> error + Matrix_fp" where
  "hessian_fp P x H =
     (case hessian_override_fp P of
        Some h \<Rightarrow> Inr (h x)
      | None \<Rightarrow> finiteHessian_fp P x H 0)"

subsection \<open>checkGradient and checkHessian\<close>

text \<open>The loop over \<open>d\<close> with its early \<open>return false\<close>; reading a coefficient a vector does
  not have is an index failure.\<close>

fun checkGradient_loop :: "Vector_fp \<Rightarrow> Vector_fp \<Rightarrow> nat list \<Rightarrow> error + bool" where
  "checkGradient_loop actual_grad expected_grad [] = Inr True"
| "checkGradient_loop actual_grad expected_grad (d # ds) =
     (if length actual_grad \<le> d \<or> length expected_grad \<le> d then Inl IndexOutOfRange
      else let scale = std_max (std_max \<bar>actual_grad ! d\<bar> \<bar>expected_grad ! d\<bar>) (Num 1)
           in if \<bar>actual_grad ! d - expected_grad ! d\<bar> > rnd (1 / 100) * scale then Inr False
              else checkGradient_loop actual_grad expected_grad ds)"

definition checkGradient :: "Problem_fp \<Rightarrow> Vector_fp \<Rightarrow> int \<Rightarrow> error + bool" where
  "checkGradient P x accuracy =
     (let D = length x in
      case gradient_fp P x of
        Inl e \<Rightarrow> Inl e
      | Inr actual_grad \<Rightarrow>
          (case finiteGradient_fp P x accuracy of
             Inl e \<Rightarrow> Inl e
           | Inr expected_grad \<Rightarrow> checkGradient_loop actual_grad expected_grad [0 ..< D]))"

definition in_range :: "Matrix_fp \<Rightarrow> nat \<Rightarrow> nat \<Rightarrow> bool" where
  "in_range A i j = (i < length A \<and> j < length (A ! i))"

fun checkHessian_inner :: "Matrix_fp \<Rightarrow> Matrix_fp \<Rightarrow> nat \<Rightarrow> nat list \<Rightarrow> error + bool" where
  "checkHessian_inner actual_hessian expected_hessian d [] = Inr True"
| "checkHessian_inner actual_hessian expected_hessian d (e # es) =
     (if in_range actual_hessian d e \<and> in_range expected_hessian d e
      then let scale = std_max (std_max \<bar>actual_hessian ! d ! e\<bar> \<bar>expected_hessian ! d ! e\<bar>)
                               (Num 1)
           in if \<bar>actual_hessian ! d ! e - expected_hessian ! d ! e\<bar> > rnd (1 / 10) * scale
              then Inr False
              else checkHessian_inner actual_hessian expected_hessian d es
      else Inl IndexOutOfRange)"

fun checkHessian_outer :: "Matrix_fp \<Rightarrow> Matrix_fp \<Rightarrow> nat \<Rightarrow> nat list \<Rightarrow> error + bool" where
  "checkHessian_outer actual_hessian expected_hessian D [] = Inr True"
| "checkHessian_outer actual_hessian expected_hessian D (d # ds) =
     (case checkHessian_inner actual_hessian expected_hessian d [0 ..< D] of
        Inl err \<Rightarrow> Inl err
      | Inr False \<Rightarrow> Inr False
      | Inr True \<Rightarrow> checkHessian_outer actual_hessian expected_hessian D ds)"

definition Zero_fp :: "nat \<Rightarrow> nat \<Rightarrow> Matrix_fp" where
  "Zero_fp r k = replicate r (replicate k (Num 0))"

definition checkHessian :: "Problem_fp \<Rightarrow> Vector_fp \<Rightarrow> int \<Rightarrow> error + bool" where
  "checkHessian P x accuracy =
     (let D = length x;
          actual_hessian = Zero_fp D D;
          expected_hessian = Zero_fp D D
      in case hessian_fp P x actual_hessian of
           Inl e \<Rightarrow> Inl e
         | Inr actual_hessian \<Rightarrow>
             (case finiteHessian_fp P x expected_hessian accuracy of
                Inl e \<Rightarrow> Inl e
              | Inr expected_hessian \<Rightarrow>
                  checkHessian_outer actual_hessian expected_hessian D [0 ..< D]))"

section \<open>Armijo line search\<close>

text \<open>
  The coefficient-wise sum, the scalar multiple and the inner product of the
  linear-algebra library, the products of \<open>dot\<close> summed from the first coefficient on.
\<close>

definition vadd :: "Vector_fp \<Rightarrow> Vector_fp \<Rightarrow> Vector_fp" where
  "vadd x y = map2 (+) x y"

definition smult :: "double \<Rightarrow> Vector_fp \<Rightarrow> Vector_fp" where
  "smult a x = map ((*) a) x"

definition dot :: "Vector_fp \<Rightarrow> Vector_fp \<Rightarrow> double" where
  "dot x y = (case map2 (*) x y of [] \<Rightarrow> 0 | p # ps \<Rightarrow> fold (\<lambda>q acc. acc + q) ps p)"

definition c :: double where
  "c = rnd (2 / 10)"

definition rho :: double where
  "rho = rnd (9 / 10)"

text \<open>
  The \<open>while\<close> loop.  It has no iteration bound, so it is a partial function: \<open>None\<close> is the
  loop that never exits.
\<close>

partial_function (option) armijo_loop ::
  "Problem_fp \<Rightarrow> Vector_fp \<Rightarrow> Vector_fp \<Rightarrow> double \<Rightarrow> double \<Rightarrow> double \<Rightarrow> double \<Rightarrow> double option"
  where
  "armijo_loop objFunc x searchDir f_in Cache alpha f =
     (if f > f_in + alpha * Cache
      then (let alpha' = alpha * rho;
                f' = value_fp objFunc (vadd x (smult alpha' searchDir))
            in armijo_loop objFunc x searchDir f_in Cache alpha' f')
      else Some alpha)"

text \<open>
  The primary template (order 1).  The outer result is the failure of a size assertion
  (\<open>x + alpha * searchDir\<close>, \<open>grad.dot(searchDir)\<close>) or the outcome of the loop.  The
  specialization for order 2 is ill-formed C++ (its \<open>using\<close> declarations name members of a
  class that is not a base, and it passes a \<open>const\<close> matrix to the non-const reference of
  \<open>hessian\<close>), so no call reaches it and it has no embedding.
\<close>

definition linesearch ::
  "Vector_fp \<Rightarrow> Vector_fp \<Rightarrow> Problem_fp \<Rightarrow> double \<Rightarrow> error + double option" where
  "linesearch x searchDir objFunc alpha_init =
     (if length searchDir \<noteq> length x then Inl SizeMismatch
      else let alpha = alpha_init;
               f = value_fp objFunc (vadd x (smult alpha searchDir));
               f_in = value_fp objFunc x
           in case gradient_fp objFunc x of
                Inl e \<Rightarrow> Inl e
              | Inr grad \<Rightarrow>
                  if length grad \<noteq> length searchDir then Inl SizeMismatch
                  else let Cache = c * dot grad searchDir
                       in Inr (armijo_loop objFunc x searchDir f_in Cache alpha f))"

section \<open>Calls by reference\<close>

text \<open>
  A \<open>const VectorType &\<close> or a \<open>VectorType &\<close> argument is the address of an object.  The
  caller's objects and the locals that a body passes on by reference (\<open>actual_grad\<close>,
  \<open>expected_grad\<close>, \<open>grad\<close>, the two Hessians) live in one memory; the addresses below \<open>top\<close>
  are in use, and a local is allocated at \<open>top\<close> and released on return.  An object is the
  list of its rows, a \<open>VectorType\<close> having one coefficient in each row: with \<open>Dim_ = 1\<close> the
  vector and the matrix type are the same type, so one object can be passed as both.
  The working copies \<open>xx\<close> and \<open>finiteDiff\<close> and the temporary \<open>x + alpha * searchDir\<close> are
  never passed on by a non-const reference and stay values.  A call with no defined
  result has no final memory.
\<close>

type_synonym address = nat

record memory =
  cells :: "address \<Rightarrow> Matrix_fp"
  top :: address

definition load_vector :: "memory \<Rightarrow> address \<Rightarrow> Vector_fp" where
  "load_vector s a = concat (cells s a)"

definition store_vector :: "address \<Rightarrow> Vector_fp \<Rightarrow> memory \<Rightarrow> memory" where
  "store_vector a v s = s\<lparr>cells := (cells s)(a := map (\<lambda>coefficient. [coefficient]) v)\<rparr>"

definition load_matrix :: "memory \<Rightarrow> address \<Rightarrow> Matrix_fp" where
  "load_matrix s a = cells s a"

definition store_matrix :: "address \<Rightarrow> Matrix_fp \<Rightarrow> memory \<Rightarrow> memory" where
  "store_matrix a M s = s\<lparr>cells := (cells s)(a := M)\<rparr>"

definition alloc :: "Matrix_fp \<Rightarrow> memory \<Rightarrow> address \<times> memory" where
  "alloc object s = (top s, s\<lparr>cells := (cells s)(top s := object), top := Suc (top s)\<rparr>)"

definition release :: "nat \<Rightarrow> memory \<Rightarrow> memory" where
  "release n s = s\<lparr>top := top s - n\<rparr>"

text \<open>
  \<open>VectorType v(D)\<close> leaves the coefficients uninitialised; every one of them is assigned
  by the callee before it is read, so the model starts the local from zeros.
\<close>

definition finiteGradient_call ::
  "Problem_fp \<Rightarrow> address \<Rightarrow> address \<Rightarrow> int \<Rightarrow> memory \<Rightarrow> error + memory" where
  "finiteGradient_call P x grad accuracy s =
     (case finiteGradient_fp P (load_vector s x) accuracy of
        Inl e \<Rightarrow> Inl e
      | Inr finiteDiff \<Rightarrow> Inr (store_vector grad finiteDiff s))"

definition finiteHessian_call ::
  "Problem_fp \<Rightarrow> address \<Rightarrow> address \<Rightarrow> int \<Rightarrow> memory \<Rightarrow> error + memory" where
  "finiteHessian_call P x hess accuracy s =
     (case finiteHessian_fp P (load_vector s x) (load_matrix s hess) accuracy of
        Inl e \<Rightarrow> Inl e
      | Inr H \<Rightarrow> Inr (store_matrix hess H s))"

definition gradient_call :: "Problem_fp \<Rightarrow> address \<Rightarrow> address \<Rightarrow> memory \<Rightarrow> error + memory" where
  "gradient_call P x grad s =
     (case gradient_override_fp P of
        Some g \<Rightarrow> Inr (store_vector grad (g (load_vector s x)) s)
      | None \<Rightarrow> finiteGradient_call P x grad 0 s)"

definition hessian_call :: "Problem_fp \<Rightarrow> address \<Rightarrow> address \<Rightarrow> memory \<Rightarrow> error + memory" where
  "hessian_call P x hess s =
     (case hessian_override_fp P of
        Some h \<Rightarrow> Inr (store_matrix hess (h (load_vector s x)) s)
      | None \<Rightarrow> finiteHessian_call P x hess 0 s)"

definition checkGradient_call ::
  "Problem_fp \<Rightarrow> address \<Rightarrow> int \<Rightarrow> memory \<Rightarrow> error + bool \<times> memory" where
  "checkGradient_call P x accuracy s =
     (let D = length (load_vector s x);
          (actual_grad, s) = alloc (Zero_fp D 1) s;
          (expected_grad, s) = alloc (Zero_fp D 1) s
      in case gradient_call P x actual_grad s of
           Inl e \<Rightarrow> Inl e
         | Inr s \<Rightarrow>
            (case finiteGradient_call P x expected_grad accuracy s of
               Inl e \<Rightarrow> Inl e
             | Inr s \<Rightarrow>
                (case checkGradient_loop (load_vector s actual_grad)
                        (load_vector s expected_grad) [0 ..< D] of
                   Inl e \<Rightarrow> Inl e
                 | Inr result \<Rightarrow> Inr (result, release 2 s))))"

definition checkHessian_call ::
  "Problem_fp \<Rightarrow> address \<Rightarrow> int \<Rightarrow> memory \<Rightarrow> error + bool \<times> memory" where
  "checkHessian_call P x accuracy s =
     (let D = length (load_vector s x);
          (actual_hessian, s) = alloc (Zero_fp D D) s;
          (expected_hessian, s) = alloc (Zero_fp D D) s
      in case hessian_call P x actual_hessian s of
           Inl e \<Rightarrow> Inl e
         | Inr s \<Rightarrow>
            (case finiteHessian_call P x expected_hessian accuracy s of
               Inl e \<Rightarrow> Inl e
             | Inr s \<Rightarrow>
                (case checkHessian_outer (load_matrix s actual_hessian)
                        (load_matrix s expected_hessian) D [0 ..< D] of
                   Inl e \<Rightarrow> Inl e
                 | Inr result \<Rightarrow> Inr (result, release 2 s))))"

definition linesearch_call ::
  "address \<Rightarrow> address \<Rightarrow> Problem_fp \<Rightarrow> double \<Rightarrow> memory \<Rightarrow> error + (double \<times> memory) option"
  where
  "linesearch_call x searchDir objFunc alpha_init s =
     (if length (load_vector s searchDir) \<noteq> length (load_vector s x) then Inl SizeMismatch
      else let alpha = alpha_init;
               f = value_fp objFunc (vadd (load_vector s x) (smult alpha (load_vector s searchDir)));
               f_in = value_fp objFunc (load_vector s x);
               (grad, s) = alloc (Zero_fp (length (load_vector s x)) 1) s
           in case gradient_call objFunc x grad s of
                Inl e \<Rightarrow> Inl e
              | Inr s \<Rightarrow>
                  if length (load_vector s grad) \<noteq> length (load_vector s searchDir)
                  then Inl SizeMismatch
                  else let Cache = c * dot (load_vector s grad) (load_vector s searchDir)
                       in Inr (map_option (\<lambda>alpha. (alpha, release 1 s))
                                 (armijo_loop objFunc (load_vector s x) (load_vector s searchDir)
                                    f_in Cache alpha f)))"

section \<open>Specification-side notions\<close>

text \<open>The point \<open>x\<close> perturbed along coordinate \<open>d\<close> by \<open>t\<close>.\<close>

definition perturb :: "VectorType \<Rightarrow> nat \<Rightarrow> Scalar \<Rightarrow> VectorType" where
  "perturb x d t = x[d := x ! d + t]"

text \<open>
  The gradient coordinate as the specification words it: the values at the stencil offsets
  scaled by eps, weighted by the stencil coefficients, summed, and divided by
  \<open>dd[accuracy] * eps\<close>.
\<close>

definition stencil_gradient ::
  "(VectorType \<Rightarrow> Scalar) \<Rightarrow> VectorType \<Rightarrow> nat \<Rightarrow> nat \<Rightarrow> Scalar" where
  "stencil_gradient f x a d =
     (\<Sum>s<2 * (a + 1). coeff ! a ! s * f (perturb x d (coeff2 ! a ! s * (22204 / 10 ^ 10))))
     / ([2, 12, 60, 840] ! a * (22204 / 10 ^ 10))"

text \<open>The matrix whose leading block has been assigned, an auxiliary notion of the proofs.\<close>

definition filled :: "(nat \<Rightarrow> nat \<Rightarrow> Scalar) \<Rightarrow> nat \<Rightarrow> nat \<Rightarrow> SquareMatrixType \<Rightarrow> SquareMatrixType" where
  "filled g n D H =
     map (\<lambda>i. if i < n then map (\<lambda>j. if j < D then g i j else H ! i ! j) [0 ..< length (H ! i)]
               else H ! i) [0 ..< length H]"

text \<open>
  The \<open>k\<close>-th trial step of the loop: \<open>alpha_init\<close> multiplied \<open>k\<close> times by \<open>rho\<close>, each
  product rounded.
\<close>

definition trial_step :: "double \<Rightarrow> nat \<Rightarrow> double" where
  "trial_step alpha_init k = ((\<lambda>alpha. alpha * rho) ^^ k) alpha_init"

text \<open>
  The test of the \<open>while\<close> loop at the step \<open>alpha\<close> for cached \<open>f_in\<close> and \<open>Cache\<close>; the
  same test for the gradient \<open>g\<close>; and the sufficient-decrease condition of the
  specification as the doubles compute it, with the products in the order of the code.
\<close>

definition loop_test ::
  "Problem_fp \<Rightarrow> Vector_fp \<Rightarrow> Vector_fp \<Rightarrow> double \<Rightarrow> double \<Rightarrow> double \<Rightarrow> bool" where
  "loop_test P x d f_in Cache alpha =
     (value_fp P (vadd x (smult alpha d)) > f_in + alpha * Cache)"

definition rejects :: "Problem_fp \<Rightarrow> Vector_fp \<Rightarrow> Vector_fp \<Rightarrow> Vector_fp \<Rightarrow> double \<Rightarrow> bool" where
  "rejects P x d g alpha =
     (value_fp P (vadd x (smult alpha d)) > value_fp P x + alpha * (c * dot g d))"

definition armijo_condition ::
  "Problem_fp \<Rightarrow> Vector_fp \<Rightarrow> Vector_fp \<Rightarrow> Vector_fp \<Rightarrow> double \<Rightarrow> bool" where
  "armijo_condition P x d g alpha =
     (value_fp P (vadd x (smult alpha d)) \<le> value_fp P x + alpha * (c * dot g d))"

text \<open>The same condition in exact arithmetic, for an objective \<open>f\<close> on real vectors.\<close>

definition armijo_exact ::
  "(real list \<Rightarrow> real) \<Rightarrow> real list \<Rightarrow> real list \<Rightarrow> real list \<Rightarrow> real \<Rightarrow> bool" where
  "armijo_exact f x d g alpha =
     (f (map2 (\<lambda>xi di. xi + alpha * di) x d)
        \<le> f x + alpha * (2 / 10) * (\<Sum>i<length x. g ! i * d ! i))"

text \<open>
  The test of \<open>checkGradient\<close> on one coordinate, and the tolerance condition of the
  specification, both as the doubles compute them.
\<close>

definition exceeds_tolerance :: "double \<Rightarrow> double \<Rightarrow> bool" where
  "exceeds_tolerance a e = (\<bar>a - e\<bar> > rnd (1 / 100) * std_max (std_max \<bar>a\<bar> \<bar>e\<bar>) (Num 1))"




text \<open>
  The quadratic objective \<open>0.5 * x\<^sup>T A x - b\<^sup>T x\<close> of the testable properties over doubles,
  and the Problem that overrides \<open>value\<close> only.
\<close>

definition mat_vec :: "Matrix_fp \<Rightarrow> Vector_fp \<Rightarrow> Vector_fp" where
  "mat_vec A x = map (\<lambda>row. dot row x) A"

definition quadratic_fp :: "Matrix_fp \<Rightarrow> Vector_fp \<Rightarrow> Vector_fp \<Rightarrow> double" where
  "quadratic_fp A b x = rnd (5 / 10) * dot x (mat_vec A x) - dot b x"

definition quadratic_problem :: "Matrix_fp \<Rightarrow> Vector_fp \<Rightarrow> Problem_fp" where
  "quadratic_problem A b = \<lparr>value_fp = quadratic_fp A b, gradient_override_fp = None,
                             hessian_override_fp = None\<rparr>"

text \<open>
  Auxiliary notions of the proofs about rounding: a state \<open>(m, e)\<close> of the shifts stands for
  the positive real \<open>m * 2^e\<close>, and it is stuck for \<open>k\<close> when it cannot be shifted up by \<open>k\<close>
  binary places.
\<close>

definition represents :: "real \<Rightarrow> real \<times> int \<Rightarrow> bool" where
  "represents y me = (case me of (m, e) \<Rightarrow> 0 < m \<and> m * pow2 e = y)"

definition stuck :: "nat \<Rightarrow> real \<times> int \<Rightarrow> bool" where
  "stuck k me = (case me of (m, e) \<Rightarrow> \<not> (m * 2 ^ k < 2 ^ 53 \<and> - 1074 \<le> e - int k))"

section \<open>Example objects\<close>

text \<open>The objective \<open>x\<^sub>0\<^sup>2\<close> with no override.\<close>

definition parabola :: Problem where
  "parabola = \<lparr>value_fn = (\<lambda>x. x ! 0 * x ! 0), gradient_override = None,
                hessian_override = None\<rparr>"

text \<open>An objective that agrees with \<open>parabola\<close> where the second coordinate is 5.\<close>

definition tilted :: Problem where
  "tilted = \<lparr>value_fn = (\<lambda>x. x ! 0 * x ! 0 + 7 * (x ! 1 - 5)), gradient_override = None,
              hessian_override = None\<rparr>"

text \<open>A cubic objective.\<close>

definition cubic :: Problem where
  "cubic = \<lparr>value_fn = (\<lambda>x. x ! 0 * x ! 0 * x ! 1), gradient_override = None,
             hessian_override = None\<rparr>"

text \<open>
  Over the doubles: the objective \<open>x\<^sub>0\<^sup>2\<close> with its analytic gradient and with an override
  that is not its gradient, a linear objective, and a memory holding the point \<open>[3]\<close> at
  address 0 and an out-parameter at address 1.
\<close>

definition parabola_fp :: Problem_fp where
  "parabola_fp = \<lparr>value_fp = (\<lambda>x. x ! 0 * x ! 0),
                   gradient_override_fp = Some (\<lambda>x. [Num 2 * x ! 0]),
                   hessian_override_fp = None\<rparr>"


definition ascent :: Problem_fp where
  "ascent = \<lparr>value_fp = (\<lambda>x. x ! 0), gradient_override_fp = Some (\<lambda>x. [Num 1]),
              hessian_override_fp = None\<rparr>"

text \<open>The objective \<open>x\<^sub>0 / x\<^sub>0\<close>, which is 1 away from the origin, with the gradient 0.\<close>

definition ratio :: Problem_fp where
  "ratio = \<lparr>value_fp = (\<lambda>x. x ! 0 / x ! 0), gradient_override_fp = Some (\<lambda>x. [Num 0]),
             hessian_override_fp = None\<rparr>"

definition memory0 :: memory where
  "memory0 = \<lparr>cells = (\<lambda>a. if a = 0 then [[Num 3]] else if a = 1 then [[Num 0]] else []),
              top = 2\<rparr>"

text \<open>A memory holding the point \<open>[1]\<close> at address 0 and the direction \<open>[-1.75]\<close> at address 1.\<close>

definition memory1 :: memory where
  "memory1 = \<lparr>cells = (\<lambda>a. if a = 0 then [[Num 1]] else if a = 1 then [[Num (- (7 / 4))]] else []),
              top = 2\<rparr>"

text \<open>The quadratic bowl \<open>0.5 * 2 * x\<^sub>0\<^sup>2 - 0 * x\<^sub>0\<close> in one dimension.\<close>

definition bowl :: Problem_fp where
  "bowl = quadratic_problem [[Num 2]] [Num 0]"

text \<open>The unit step at the origin, with the gradient 0 it has everywhere else.\<close>

definition unit_step :: Problem_fp where
  "unit_step = \<lparr>value_fp = (\<lambda>x. if Num 0 < x ! 0 then Num 1 else Num 0),
                 gradient_override_fp = Some (\<lambda>x. [Num 0]), hessian_override_fp = None\<rparr>"

section \<open>The finite-difference gradient\<close>

lemma fold_add_upt:
  "fold (\<lambda>s acc. acc + g s) [0 ..< n] (a0 :: real) = a0 + (\<Sum>s<n. g s)"
  by (induction n) simp_all

lemma finiteDiff_at_eq:
  "finiteDiff_at P x a d = stencil_gradient (value_fn P) x a d"
  by (simp add: finiteDiff_at_def stencil_gradient_def perturb_def fold_add_upt
      eps_gradient_def dd_def Let_def)

lemma table_lengths:
  assumes "a \<le> 3"
  shows "length (coeff ! a) = 2 * (a + 1) \<and> length (coeff2 ! a) = 2 * (a + 1)"
proof -
  from assms have "a = 0 \<or> a = 1 \<or> a = 2 \<or> a = 3" by arith
  then show ?thesis by (auto simp: coeff_def coeff2_def)
qed

lemma finiteGradient_valid:
  assumes "0 \<le> accuracy" and "accuracy \<le> 3"
  shows "finiteGradient P x accuracy
           = Inr (map (stencil_gradient (value_fn P) x (nat accuracy)) [0 ..< length x])"
proof -
  have "finiteDiff_at P x (nat accuracy) = stencil_gradient (value_fn P) x (nat accuracy)"
    by (rule ext) (rule finiteDiff_at_eq)
  with assms show ?thesis by (simp add: finiteGradient_def)
qed

lemma stencil_gradient_levels:
  fixes f :: "VectorType \<Rightarrow> Scalar"
  defines "h \<equiv> 22204 / 10 ^ 10"
  shows "stencil_gradient f x 0 d
           = (f (perturb x d h) - f (perturb x d (- h))) / (2 * h)"
    and "stencil_gradient f x 1 d
           = (f (perturb x d (- 2 * h)) - 8 * f (perturb x d (- h))
              + 8 * f (perturb x d h) - f (perturb x d (2 * h))) / (12 * h)"
    and "stencil_gradient f x 2 d
           = (- f (perturb x d (- 3 * h)) + 9 * f (perturb x d (- 2 * h))
              - 45 * f (perturb x d (- h)) + 45 * f (perturb x d h)
              - 9 * f (perturb x d (2 * h)) + f (perturb x d (3 * h))) / (60 * h)"
    and "stencil_gradient f x 3 d
           = (3 * f (perturb x d (- 4 * h)) - 32 * f (perturb x d (- 3 * h))
              + 168 * f (perturb x d (- 2 * h)) - 672 * f (perturb x d (- h))
              + 672 * f (perturb x d h) - 168 * f (perturb x d (2 * h))
              + 32 * f (perturb x d (3 * h)) - 3 * f (perturb x d (4 * h))) / (840 * h)"
  by (simp_all add: stencil_gradient_def coeff_def coeff2_def h_def numeral_eq_Suc lessThan_Suc)

lemma stencil_gradient_cong:
  assumes "\<And>t. f (perturb x d t) = f' (perturb x d t)"
  shows "stencil_gradient f x a d = stencil_gradient f' x a d"
  by (simp add: stencil_gradient_def assms)

text \<open>
  C3.  For every accuracy level 0..3, \<open>finiteGradient\<close> returns the vector whose coordinate
  \<open>d\<close> is the stencil formula of the specification at \<open>d\<close>: the sum over the
  \<open>2 * (a + 1)\<close> stencil points of the coefficient times the value at \<open>x\<close> perturbed along
  \<open>d\<close> by the offset times \<open>eps = 2.2204e-6\<close>, divided by \<open>dd[a] * eps\<close> with
  \<open>dd = {2, 12, 60, 840}\<close>.  Each coordinate is computed on its own: coordinate \<open>d\<close> of the
  result is settled by the values of the objective at \<open>x\<close> perturbed along \<open>d\<close>.
\<close>

theorem finiteGradient_stencil:
  assumes "a \<le> 3"
  shows "finiteGradient P x (int a)
           = Inr (map (stencil_gradient (value_fn P) x a) [0 ..< length x])
         \<and> length (coeff ! a) = 2 * (a + 1) \<and> length (coeff2 ! a) = 2 * (a + 1)
         \<and> dd = [2, 12, 60, 840] \<and> eps_gradient = 22204 / 10 ^ 10
         \<and> (\<forall>d<length x. (\<forall>t. value_fn P' (perturb x d t) = value_fn P (perturb x d t)) \<longrightarrow>
               (\<exists>g g'. finiteGradient P x (int a) = Inr g \<and> finiteGradient P' x (int a) = Inr g'
                        \<and> g' ! d = g ! d))"
proof -
  have fg: "\<And>Q. finiteGradient Q x (int a)
                 = Inr (map (stencil_gradient (value_fn Q) x a) [0 ..< length x])"
    using assms finiteGradient_valid[of "int a" _ x] by simp
  have "\<forall>d<length x. (\<forall>t. value_fn P' (perturb x d t) = value_fn P (perturb x d t)) \<longrightarrow>
               (\<exists>g g'. finiteGradient P x (int a) = Inr g \<and> finiteGradient P' x (int a) = Inr g'
                        \<and> g' ! d = g ! d)"
  proof (intro allI impI)
    fix d assume d: "d < length x"
      and agree: "\<forall>t. value_fn P' (perturb x d t) = value_fn P (perturb x d t)"
    have "stencil_gradient (value_fn P') x a d = stencil_gradient (value_fn P) x a d"
      using agree by (intro stencil_gradient_cong) simp
    with d show "\<exists>g g'. finiteGradient P x (int a) = Inr g \<and> finiteGradient P' x (int a) = Inr g'
                        \<and> g' ! d = g ! d"
      by (simp add: fg)
  qed
  with fg[of P] table_lengths[OF assms] show ?thesis
    by (simp add: dd_def eps_gradient_def)
qed

theorem finiteGradient_stencil_witness:
  "(1::nat) \<le> 3 \<and> finiteGradient parabola [3] 1 = Inr [6]
   \<and> (\<exists>g g'. finiteGradient parabola [3, 5] 1 = Inr g \<and> finiteGradient tilted [3, 5] 1 = Inr g'
              \<and> g' ! 0 = g ! 0 \<and> g ! 0 = 6)"
proof -
  have one: "stencil_gradient (value_fn parabola) [3] 1 0 = 6"
    unfolding stencil_gradient_levels
    by (simp add: parabola_def perturb_def power2_eq_square algebra_simps)
  have first: "finiteGradient parabola [3] 1 = Inr [6]"
    using one finiteGradient_stencil[of 1 parabola "[3]" parabola] by simp
  have two: "stencil_gradient (value_fn parabola) [3, 5] 1 0 = 6"
    unfolding stencil_gradient_levels
    by (simp add: parabola_def perturb_def power2_eq_square algebra_simps)
  have agree: "\<forall>t. value_fn tilted (perturb [3, 5] 0 t) = value_fn parabola (perturb [3, 5] 0 t)"
    by (simp add: tilted_def parabola_def perturb_def)
  have a: "(1::nat) \<le> 3" and d: "(0::nat) < length [3, 5::real]" by simp_all
  from finiteGradient_stencil[OF a, of parabola "[3, 5]" tilted] d agree
  obtain g g' where g: "finiteGradient parabola [3, 5] (int 1) = Inr g"
      "finiteGradient tilted [3, 5] (int 1) = Inr g'" "g' ! 0 = g ! 0"
      "finiteGradient parabola [3, 5] (int 1)
         = Inr (map (stencil_gradient (value_fn parabola) [3, 5] 1) [0 ..< length [3, 5::real]])"
    by blast
  from g(1,4) have "g ! 0 = stencil_gradient (value_fn parabola) [3, 5] 1 0"
    by (simp add: upt_rec[of 0])
  with two g(1-3) first show ?thesis by auto
qed

section \<open>The default gradient and Hessian\<close>

text \<open>
  C4.  A Problem that overrides neither \<open>gradient\<close> nor \<open>hessian\<close> gets, from
  \<open>gradient(x, grad)\<close>, the result of \<open>finiteGradient(x, grad)\<close> at accuracy 0 and, from
  \<open>hessian(x, h)\<close>, the result of \<open>finiteHessian(x, h)\<close> at accuracy 0.
\<close>

theorem default_derivatives:
  assumes "gradient_override P = None" and "hessian_override P = None"
  shows "gradient P x = finiteGradient P x 0 \<and> hessian P x H = finiteHessian P x H 0"
  using assms by (simp add: gradient_def hessian_def)

theorem default_derivatives_witness:
  "gradient_override parabola = None \<and> hessian_override parabola = None
   \<and> gradient parabola [3] = finiteGradient parabola [3] 0
   \<and> hessian parabola [3] [[0]] = finiteHessian parabola [3] [[0]] 0
   \<and> finiteGradient parabola [3] 0 = Inr [6]"
proof -
  have "stencil_gradient (value_fn parabola) [3] 0 0 = 6"
    by (simp add: stencil_gradient_def parabola_def perturb_def coeff_def coeff2_def
        numeral_eq_Suc lessThan_Suc power2_eq_square algebra_simps)
  then have "finiteGradient parabola [3] 0 = Inr [6]"
    using finiteGradient_valid[of 0 parabola "[3]"] by simp
  then show ?thesis
    using default_derivatives[of parabola "[3]" "[[0]]"] by (simp add: parabola_def)
qed

section \<open>Default bounds\<close>

text \<open>
  C7.  A default-constructed \<open>BoundedProblem\<close> reports minus infinity in every coefficient of
  \<open>lowerBound()\<close> and plus infinity in every coefficient of \<open>upperBound()\<close>.
\<close>

theorem BoundedProblem_default_bounds:
  "lowerBound (BoundedProblem Dim junk)
     = replicate (if Dim = Dynamic then 0 else nat Dim) MinusInfinity
   \<and> upperBound (BoundedProblem Dim junk)
     = replicate (if Dim = Dynamic then 0 else nat Dim) PlusInfinity
   \<and> (\<forall>i < length (lowerBound (BoundedProblem Dim junk)).
         lowerBound (BoundedProblem Dim junk) ! i = MinusInfinity)
   \<and> (\<forall>i < length (upperBound (BoundedProblem Dim junk)).
         upperBound (BoundedProblem Dim junk) ! i = PlusInfinity)"
  by (simp add: lowerBound_def upperBound_def BoundedProblem_def setConstant_def
      default_vector_def infinity_def map_replicate_const)

theorem BoundedProblem_default_bounds_witness:
  "lowerBound (BoundedProblem 2 (\<lambda>i. Finite 0)) = [MinusInfinity, MinusInfinity]
   \<and> upperBound (BoundedProblem 2 (\<lambda>i. Finite 0)) = [PlusInfinity, PlusInfinity]
   \<and> lowerBound (BoundedProblem 2 (\<lambda>i. Finite 0)) ! 1 = MinusInfinity
   \<and> lowerBound (BoundedProblem Dynamic (\<lambda>i. Finite 0)) = []"
  using BoundedProblem_default_bounds[of 2 "\<lambda>i. Finite 0"]
        BoundedProblem_default_bounds[of Dynamic "\<lambda>i. Finite 0"]
  by (simp add: Dynamic_def numeral_2_eq_2)

section \<open>The finite-difference Hessian\<close>

lemma set_coeff_row:
  assumes "i < length H"
  shows "set_coeff (H[i := r]) i j v = H[i := r[j := v]]"
  using assms by (simp add: set_coeff_def)

lemma inner_fold:
  assumes "i < length H" and "m \<le> length (H ! i)"
  shows "fold (\<lambda>j H. set_coeff H i j (g j)) [0 ..< m] H
           = H[i := map (\<lambda>j. if j < m then g j else H ! i ! j) [0 ..< length (H ! i)]]"
  using assms(2)
proof (induction m)
  case 0
  show ?case by (simp add: map_nth)
next
  case (Suc m)
  then have m: "m < length (H ! i)" by simp
  have "fold (\<lambda>j H. set_coeff H i j (g j)) [0 ..< Suc m] H
          = set_coeff (H[i := map (\<lambda>j. if j < m then g j else H ! i ! j) [0 ..< length (H ! i)]])
              i m (g m)"
    using Suc by simp
  also have "\<dots> = H[i := (map (\<lambda>j. if j < m then g j else H ! i ! j) [0 ..< length (H ! i)])
                            [m := g m]]"
    using assms(1) by (rule set_coeff_row)
  also have "(map (\<lambda>j. if j < m then g j else H ! i ! j) [0 ..< length (H ! i)])[m := g m]
               = map (\<lambda>j. if j < Suc m then g j else H ! i ! j) [0 ..< length (H ! i)]"
    using m by (intro nth_equalityI) (auto simp: nth_list_update less_Suc_eq)
  finally show ?case .
qed

lemma outer_fold:
  assumes "n \<le> length H" and "\<forall>i<n. D \<le> length (H ! i)"
  shows "fold (\<lambda>i H. fold (\<lambda>j H. set_coeff H i j (g i j)) [0 ..< D] H) [0 ..< n] H
           = filled g n D H"
  using assms
proof (induction n)
  case 0
  show ?case by (simp add: filled_def map_nth)
next
  case (Suc n)
  then have n: "n < length H" and Dn: "D \<le> length (H ! n)" by simp_all
  from Suc have IH: "fold (\<lambda>i H. fold (\<lambda>j H. set_coeff H i j (g i j)) [0 ..< D] H) [0 ..< n] H
           = filled g n D H" by simp
  have len: "length (filled g n D H) = length H" by (simp add: filled_def)
  have row: "filled g n D H ! n = H ! n" using n by (simp add: filled_def)
  have "fold (\<lambda>i H. fold (\<lambda>j H. set_coeff H i j (g i j)) [0 ..< D] H) [0 ..< Suc n] H
          = fold (\<lambda>j H. set_coeff H n j (g n j)) [0 ..< D] (filled g n D H)"
    using IH by simp
  also have "\<dots> = (filled g n D H)
                      [n := map (\<lambda>j. if j < D then g n j else filled g n D H ! n ! j)
                                [0 ..< length (filled g n D H ! n)]]"
    using n Dn by (intro inner_fold) (simp_all add: len row)
  also have "\<dots> = filled g (Suc n) D H"
    using n by (intro nth_equalityI) (auto simp: filled_def nth_list_update less_Suc_eq)
  finally show ?case .
qed

lemma finiteHessian_result:
  assumes "finiteHessian P x H accuracy = Inr R"
  shows "R = filled (hessian_entry P x accuracy) (length x) (length x) H
         \<and> length x \<le> length H \<and> (\<forall>i<length x. length x \<le> length (H ! i))"
proof -
  let ?D = "length x"
  from assms have guard: "?D \<le> rows H \<and> list_all (\<lambda>row. ?D \<le> length row) (take ?D H)"
    by (auto simp: finiteHessian_def Let_def split: if_splits)
  then have le: "?D \<le> length H" by (simp add: rows_def)
  from guard have rowlen: "\<forall>i<?D. ?D \<le> length (H ! i)"
    using le by (auto simp: list_all_length)
  from assms guard have "R = fold (\<lambda>i H. fold (\<lambda>j H. set_coeff H i j (hessian_entry P x accuracy i j))
                               [0 ..< ?D] H) [0 ..< ?D] H"
    by (simp add: finiteHessian_def Let_def)
  with outer_fold[OF le rowlen] le rowlen show ?thesis by simp
qed

lemma finiteHessian_entry:
  assumes "finiteHessian P x H accuracy = Inr R" and "i < length x" and "j < length x"
  shows "coeffRef R i j = hessian_entry P x accuracy i j"
proof -
  from finiteHessian_result[OF assms(1)]
  have R: "R = filled (hessian_entry P x accuracy) (length x) (length x) H"
    and le: "length x \<le> length H" and rl: "\<forall>i<length x. length x \<le> length (H ! i)"
    by simp_all
  from rl assms(2) have "length x \<le> length (H ! i)" by blast
  with assms(2,3) le show ?thesis
    by (simp add: R filled_def coeffRef_def)
qed

lemma finiteHessian_defined:
  assumes "rows H = length x" and "has_cols (length x) H"
  shows "\<exists>R. finiteHessian P x H accuracy = Inr R \<and> rows R = length x \<and> has_cols (length x) R"
proof -
  from assms have guard: "length x \<le> rows H \<and> list_all (\<lambda>row. length x \<le> length row) (take (length x) H)"
    by (auto simp: has_cols_def rows_def list_all_iff)
  then obtain R where R: "finiteHessian P x H accuracy = Inr R"
    by (simp add: finiteHessian_def Let_def)
  from finiteHessian_result[OF R]
  have eq: "R = filled (hessian_entry P x accuracy) (length x) (length x) H" by simp
  have "rows R = length x" using assms(1) by (simp add: eq filled_def rows_def)
  moreover have "has_cols (length x) R"
    using assms by (auto simp: eq filled_def has_cols_def rows_def list_all_iff)
  ultimately show ?thesis using R by blast
qed

lemma Zero_square: "rows (Zero n n) = n \<and> has_cols n (Zero n n)"
  by (simp add: Zero_def rows_def has_cols_def list_all_iff)

lemma perturb_swap:
  assumes "i < length x" and "j < length x"
  shows "perturb (perturb x i s) j t = perturb (perturb x j t) i s"
proof (cases "i = j")
  case True
  with assms show ?thesis by (simp add: perturb_def add.commute add.left_commute)
next
  case False
  with assms show ?thesis by (simp add: perturb_def list_update_swap)
qed

lemma sample_perturb:
  "sample x i a j b = perturb (perturb x i (a * eps_hessian)) j (b * eps_hessian)"
  by (simp add: sample_def perturb_def Let_def)

lemma list_update_restore:
  "i \<noteq> j \<Longrightarrow> xs[j := a, i := xs ! i] = xs[j := a]"
  by (metis list_update_id list_update_swap)

lemma hessian_entry0_eq:
  assumes "i < length x" and "j < length x"
  shows "hessian_entry0 P x i j
           = (value_fn P (perturb (perturb x i eps_hessian) j eps_hessian)
              - value_fn P (perturb x i eps_hessian) - value_fn P (perturb x j eps_hessian)
              + value_fn P x) / (eps_hessian * eps_hessian)"
proof (cases "i = j")
  case True
  with assms show ?thesis
    by (simp add: hessian_entry0_def perturb_def Let_def add.commute)
next
  case False
  with assms show ?thesis
    by (simp add: hessian_entry0_def perturb_def Let_def list_update_swap[of i j]
        list_update_restore)
qed

lemma hessian_entry0_sym:
  assumes "i < length x" and "j < length x"
  shows "hessian_entry0 P x i j = hessian_entry0 P x j i"
  by (simp add: hessian_entry0_eq assms perturb_swap[OF assms])

lemma hessian_entry5_sym:
  assumes "i < length x" and "j < length x"
  shows "hessian_entry5 P x i j = hessian_entry5 P x j i"
proof -
  have sw: "\<And>a b. sample x j b i a = sample x i a j b"
    by (simp add: sample_perturb perturb_swap[OF assms])
  show ?thesis by (simp add: hessian_entry5_def Let_def sw)
qed

text \<open>
  C10.  In exact arithmetic the matrix \<open>finiteHessian\<close> produces is symmetric on the index
  range it assigns, for every objective, every point and both branches (accuracy 0 and
  any other accuracy): the coefficient at \<open>(i, j)\<close> equals the one at \<open>(j, i)\<close>, the sample
  points of one being those of the other.
\<close>

theorem finiteHessian_symmetric:
  assumes "finiteHessian P x H accuracy = Inr R" and "i < length x" and "j < length x"
  shows "coeffRef R i j = coeffRef R j i"
proof -
  have "hessian_entry P x accuracy i j = hessian_entry P x accuracy j i"
    using assms(2,3) by (simp add: hessian_entry_def hessian_entry0_sym hessian_entry5_sym)
  then show ?thesis
    by (simp add: finiteHessian_entry[OF assms(1)] assms(2,3))
qed

theorem finiteHessian_symmetric_witness:
  "(\<exists>R. finiteHessian cubic [1, 2] (Zero 2 2) 0 = Inr R \<and> coeffRef R 0 1 = coeffRef R 1 0)
   \<and> (\<exists>R. finiteHessian cubic [1, 2] (Zero 2 2) 1 = Inr R \<and> coeffRef R 0 1 = coeffRef R 1 0)"
proof -
  have i0: "(0::nat) < length [1, 2 :: real]" and i1: "(1::nat) < length [1, 2 :: real]"
    by simp_all
  have z: "rows (Zero 2 2) = length [1, 2 :: real]" "has_cols (length [1, 2 :: real]) (Zero 2 2)"
    using Zero_square[of 2] by (simp_all add: numeral_2_eq_2)
  from finiteHessian_defined[OF z, of cubic 0]
  obtain R0 where R0: "finiteHessian cubic [1, 2] (Zero 2 2) 0 = Inr R0" by blast
  from finiteHessian_defined[OF z, of cubic 1]
  obtain R1 where R1: "finiteHessian cubic [1, 2] (Zero 2 2) 1 = Inr R1" by blast
  from finiteHessian_symmetric[OF R0 i0 i1] finiteHessian_symmetric[OF R1 i0 i1] R0 R1
  show ?thesis by blast
qed

section \<open>The backtracking loop\<close>

lemma trial_step_0: "trial_step a 0 = a"
  by (simp add: trial_step_def)

lemma trial_step_Suc: "trial_step a (Suc k) = trial_step (a * rho) k"
  unfolding trial_step_def by (simp only: funpow_Suc_right o_apply)

lemma armijo_loop_steps:
  assumes "\<forall>j<k. loop_test P x d f_in Cache (trial_step a j)"
      and "\<not> loop_test P x d f_in Cache (trial_step a k)"
  shows "armijo_loop P x d f_in Cache a (value_fp P (vadd x (smult a d)))
           = Some (trial_step a k)"
  using assms
proof (induction k arbitrary: a)
  case 0
  then show ?case
    by (subst armijo_loop.simps) (simp add: loop_test_def trial_step_0)
next
  case (Suc k)
  from Suc.prems(1) have "loop_test P x d f_in Cache (trial_step a 0)" by blast
  then have first: "value_fp P (vadd x (smult a d)) > f_in + a * Cache"
    by (simp add: loop_test_def trial_step_0)
  have "\<forall>j<k. loop_test P x d f_in Cache (trial_step (a * rho) j)"
  proof (intro allI impI)
    fix j assume "j < k"
    then have "Suc j < Suc k" by simp
    with Suc.prems(1) have "loop_test P x d f_in Cache (trial_step a (Suc j))" by blast
    then show "loop_test P x d f_in Cache (trial_step (a * rho) j)"
      by (simp add: trial_step_Suc)
  qed
  moreover from Suc.prems(2) have "\<not> loop_test P x d f_in Cache (trial_step (a * rho) k)"
    by (simp add: trial_step_Suc)
  ultimately have "armijo_loop P x d f_in Cache (a * rho) (value_fp P (vadd x (smult (a * rho) d)))
                     = Some (trial_step (a * rho) k)"
    by (rule Suc.IH)
  with first show ?case
    by (subst armijo_loop.simps) (simp add: trial_step_Suc Let_def)
qed

lemmas armijo_loop_raw =
  armijo_loop.raw_induct[where xa = "((((((P, x), d), f_in), Cache), a), f)" and y = r,
    unfolded prod.case] for P x d f_in Cache a f r

lemma armijo_loop_sound:
  assumes "armijo_loop P x d f_in Cache a f = Some r"
  shows "f = value_fp P (vadd x (smult a d)) \<longrightarrow>
         (\<exists>k. r = trial_step a k \<and> \<not> loop_test P x d f_in Cache (trial_step a k)
              \<and> (\<forall>j<k. loop_test P x d f_in Cache (trial_step a j)))"
proof (rule armijo_loop_raw[where P = "\<lambda>P x d f_in Cache a f r.
         f = value_fp P (vadd x (smult a d)) \<longrightarrow>
         (\<exists>k. r = trial_step a k \<and> \<not> loop_test P x d f_in Cache (trial_step a k)
              \<and> (\<forall>j<k. loop_test P x d f_in Cache (trial_step a j)))", OF _ assms])
  fix loop P x d f_in Cache a f r
  assume IH: "\<And>P x d f_in Cache a f r. loop P x d f_in Cache a f = Some r \<Longrightarrow>
         f = value_fp P (vadd x (smult a d)) \<longrightarrow>
         (\<exists>k. r = trial_step a k \<and> \<not> loop_test P x d f_in Cache (trial_step a k)
              \<and> (\<forall>j<k. loop_test P x d f_in Cache (trial_step a j)))"
    and body: "(if f_in + a * Cache < f
      then let alpha' = a * rho
           in Let (value_fp P (vadd x (smult alpha' d))) (loop P x d f_in Cache alpha')
      else Some a) = Some r"
  show "f = value_fp P (vadd x (smult a d)) \<longrightarrow>
         (\<exists>k. r = trial_step a k \<and> \<not> loop_test P x d f_in Cache (trial_step a k)
              \<and> (\<forall>j<k. loop_test P x d f_in Cache (trial_step a j)))"
  proof
    assume f: "f = value_fp P (vadd x (smult a d))"
    show "\<exists>k. r = trial_step a k \<and> \<not> loop_test P x d f_in Cache (trial_step a k)
              \<and> (\<forall>j<k. loop_test P x d f_in Cache (trial_step a j))"
    proof (cases "f > f_in + a * Cache")
      case False
      with body have "r = a" by simp
      with False f show ?thesis
        by (intro exI[of _ 0]) (simp add: loop_test_def trial_step_0)
    next
      case True
      with body have "loop P x d f_in Cache (a * rho) (value_fp P (vadd x (smult (a * rho) d)))
                        = Some r"
        by (simp add: Let_def)
      from IH[OF this] obtain k where k: "r = trial_step (a * rho) k"
        "\<not> loop_test P x d f_in Cache (trial_step (a * rho) k)"
        "\<forall>j<k. loop_test P x d f_in Cache (trial_step (a * rho) j)"
        by blast
      have "\<forall>j<Suc k. loop_test P x d f_in Cache (trial_step a j)"
      proof (intro allI impI)
        fix j assume j: "j < Suc k"
        show "loop_test P x d f_in Cache (trial_step a j)"
        proof (cases j)
          case 0
          with True f show ?thesis by (simp add: loop_test_def trial_step_0)
        next
          case (Suc i)
          with j have "i < k" by simp
          with k(3) have "loop_test P x d f_in Cache (trial_step (a * rho) i)" by blast
          with Suc show ?thesis by (simp add: trial_step_Suc)
        qed
      qed
      with k(1,2) show ?thesis
        by (intro exI[of _ "Suc k"]) (simp add: trial_step_Suc)
    qed
  qed
qed

lemma armijo_loop_Some_iff:
  "armijo_loop P x d f_in Cache a (value_fp P (vadd x (smult a d))) = Some r \<longleftrightarrow>
     (\<exists>k. r = trial_step a k \<and> \<not> loop_test P x d f_in Cache (trial_step a k)
          \<and> (\<forall>j<k. loop_test P x d f_in Cache (trial_step a j)))"
  using armijo_loop_sound[of P x d f_in Cache a "value_fp P (vadd x (smult a d))" r]
        armijo_loop_steps[of _ P x d f_in Cache a]
  by auto

lemma armijo_loop_None_iff:
  "armijo_loop P x d f_in Cache a (value_fp P (vadd x (smult a d))) = None \<longleftrightarrow>
     (\<forall>k. loop_test P x d f_in Cache (trial_step a k))"
proof
  assume none: "armijo_loop P x d f_in Cache a (value_fp P (vadd x (smult a d))) = None"
  show "\<forall>k. loop_test P x d f_in Cache (trial_step a k)"
  proof (rule ccontr)
    assume "\<not> (\<forall>k. loop_test P x d f_in Cache (trial_step a k))"
    then have ex: "\<exists>k. \<not> loop_test P x d f_in Cache (trial_step a k)" by blast
    define m where "m = (LEAST k. \<not> loop_test P x d f_in Cache (trial_step a k))"
    from ex have "\<not> loop_test P x d f_in Cache (trial_step a m)"
      unfolding m_def by (rule LeastI_ex)
    moreover have "\<forall>j<m. loop_test P x d f_in Cache (trial_step a j)"
      unfolding m_def using not_less_Least by blast
    ultimately have "armijo_loop P x d f_in Cache a (value_fp P (vadd x (smult a d)))
                       = Some (trial_step a m)"
      by (rule armijo_loop_steps[rotated])
    with none show False by simp
  qed
next
  assume all: "\<forall>k. loop_test P x d f_in Cache (trial_step a k)"
  show "armijo_loop P x d f_in Cache a (value_fp P (vadd x (smult a d))) = None"
  proof (cases "armijo_loop P x d f_in Cache a (value_fp P (vadd x (smult a d)))")
    case None
    then show ?thesis .
  next
    case (Some r)
    from armijo_loop_sound[OF this] all show ?thesis by blast
  qed
qed

lemma rejects_loop_test:
  "loop_test P x d (value_fp P x) (c * dot g d) alpha = rejects P x d g alpha"
  by (simp add: loop_test_def rejects_def)

lemma linesearch_unfold:
  assumes "length d = length x" and "gradient_fp P x = Inr g" and "length g = length x"
  shows "linesearch x d P alpha_init
           = Inr (armijo_loop P x d (value_fp P x) (c * dot g d) alpha_init
                    (value_fp P (vadd x (smult alpha_init d))))"
  using assms by (simp add: linesearch_def Let_def)

text \<open>Where no operand is NaN, \<open>\<not> (a > b)\<close> is \<open>a \<le> b\<close>.\<close>

lemma not_less_double:
  assumes "a \<noteq> NaN" and "b \<noteq> NaN"
  shows "\<not> b < a \<longleftrightarrow> a \<le> (b :: double)"
  using assms by (cases a; cases b) auto

section \<open>Evaluating double arithmetic\<close>

lemmas rounding = rnd_def round_double_def round_to_even_def pow2_def normalise_def
  scale_up_def scale_down_def shifts_def Let_def

lemma rho_val: "rho = Num (8106479329266893 / 2 ^ 53)"
  by (simp add: rho_def rounding)

lemma c_val: "c = Num (3602879701896397 / 2 ^ 54)"
  by (simp add: c_def rounding)

lemma eps_gradient_val: "eps_gradient_fp = Num (655346408660235 / 2 ^ 68)"
  by (simp add: eps_gradient_fp_def rounding)

lemma tolerance_val: "rnd (1 / 100) = Num (5764607523034235 / 2 ^ 59)"
  by (simp add: rounding)


section \<open>Bounds on rounding\<close>

lemma pow2_positive: "0 < pow2 e"
  by (simp add: pow2_def)

lemma pow2_add_nat: "pow2 (e + int k) = pow2 e * 2 ^ k"
proof (cases "0 \<le> e")
  case True
  then show ?thesis by (simp add: pow2_def nat_add_distrib power_add)
next
  case neg: False
  show ?thesis
  proof (cases "0 \<le> e + int k")
    case True
    with neg have "k = nat (e + int k) + nat (- e)" by simp
    then have "(2::real) ^ k = 2 ^ nat (e + int k) * 2 ^ nat (- e)"
      by (simp only: power_add[symmetric])
    with neg True show ?thesis by (simp add: pow2_def)
  next
    case False
    with neg have "nat (- e) = nat (- (e + int k)) + k" by simp
    then have "(2::real) ^ nat (- e) = 2 ^ nat (- (e + int k)) * 2 ^ k"
      by (simp only: power_add[symmetric])
    with neg False show ?thesis by (simp add: pow2_def)
  qed
qed

lemma pow2_diff_nat: "pow2 (e - int k) * 2 ^ k = pow2 e"
  using pow2_add_nat[of "e - int k" k] by simp

lemma pow2_lower:
  assumes "- 1074 \<le> e"
  shows "1 / 2 ^ 1074 \<le> pow2 e"
proof -
  have "pow2 e = pow2 (- 1074 + int (nat (e + 1074)))" using assms by simp
  also have "\<dots> = pow2 (- 1074) * 2 ^ nat (e + 1074)" by (rule pow2_add_nat)
  also have "pow2 (- 1074) = 1 / 2 ^ 1074" by (simp add: pow2_def)
  finally have "pow2 e = 1 / 2 ^ 1074 * 2 ^ nat (e + 1074)" .
  moreover have "(1::real) \<le> 2 ^ nat (e + 1074)" by simp
  ultimately show ?thesis
    by (metis mult.right_neutral mult_left_mono zero_le_divide_1_iff zero_le_numeral
          zero_le_power)
qed

lemma scale_down_represents:
  assumes "represents y s"
  shows "represents y (scale_down k s)"
proof (cases s)
  case (Pair m e)
  with assms show ?thesis
    by (auto simp: represents_def scale_down_def pow2_add_nat)
qed

lemma scale_up_represents:
  assumes "represents y s"
  shows "represents y (scale_up k s)"
proof (cases s)
  case (Pair m e)
  have "m * 2 ^ k * pow2 (e - int k) = m * pow2 e"
    using pow2_diff_nat[of e k] by (simp add: mult_ac)
  with Pair assms show ?thesis
    by (auto simp: represents_def scale_up_def)
qed

lemma fold_invariant:
  assumes "\<And>k s. I s \<Longrightarrow> I (f k s)" and "I s"
  shows "I (fold f ks s)"
  using assms(2) by (induction ks arbitrary: s) (simp_all add: assms(1))

lemma scale_down_start:
  assumes "2 ^ 52 \<le> fst s \<or> snd s = 0" and "0 \<le> snd s"
  shows "(2 ^ 52 \<le> fst (scale_down k s) \<or> snd (scale_down k s) = 0) \<and> 0 \<le> snd (scale_down k s)"
  using assms by (cases s) (auto simp: scale_down_def)

lemma scale_up_floor:
  assumes "- 1074 \<le> snd s"
  shows "- 1074 \<le> snd (scale_up k s)"
  using assms by (cases s) (auto simp: scale_up_def)

lemma scale_up_stuck:
  assumes "stuck (2 * k) s"
  shows "stuck k (scale_up k s)"
proof (cases s)
  case (Pair m e)
  have p: "m * 2 ^ k * 2 ^ k = m * 2 ^ (2 * k)"
    by (simp add: power_add[symmetric] mult_2 mult.assoc)
  from Pair assms have a: "\<not> (m * 2 ^ (2 * k) < 2 ^ 53 \<and> - 1074 \<le> e - int (2 * k))"
    by (simp add: stuck_def)
  show ?thesis
  proof (cases "m * 2 ^ k < 2 ^ 53 \<and> - 1074 \<le> e - int k")
    case True
    then have "scale_up k s = (m * 2 ^ k, e - int k)"
      unfolding Pair scale_up_def prod.case by (rule if_P)
    moreover have "\<not> (m * 2 ^ k * 2 ^ k < 2 ^ 53 \<and> - 1074 \<le> e - int k - int k)"
      using a unfolding p by simp
    ultimately show ?thesis by (simp only: stuck_def prod.case simp_thms)
  next
    case False
    then have "scale_up k s = (m, e)"
      unfolding Pair scale_up_def prod.case by (rule if_not_P)
    with False show ?thesis by (simp only: stuck_def prod.case simp_thms)
  qed
qed

lemma normalise_state:
  assumes "0 < y"
  shows "\<exists>m e. normalise y = (m, e) \<and> 0 < m \<and> m * pow2 e = y \<and> - 1074 \<le> e
           \<and> (2 ^ 52 \<le> m \<or> e = - 1074)"
proof -
  define s1 where "s1 = fold scale_down shifts (y, 0)"
  have r0: "represents y (y, 0)" using assms by (simp add: represents_def pow2_def)
  have r1: "represents y s1"
    unfolding s1_def using scale_down_represents r0 by (rule fold_invariant)
  have "(2 ^ 52 \<le> fst s1 \<or> snd s1 = 0) \<and> 0 \<le> snd s1"
    unfolding s1_def
  proof (rule fold_invariant[where I = "\<lambda>s. (2 ^ 52 \<le> fst s \<or> snd s = 0) \<and> 0 \<le> snd s"])
    fix k :: nat and s :: "real \<times> int"
    assume "(2 ^ 52 \<le> fst s \<or> snd s = 0) \<and> 0 \<le> snd s"
    then show "(2 ^ 52 \<le> fst (scale_down k s) \<or> snd (scale_down k s) = 0)
                 \<and> 0 \<le> snd (scale_down k s)"
      using scale_down_start[of s k] by blast
  next
    show "(2 ^ 52 \<le> fst (y, 0::int) \<or> snd (y, 0::int) = 0) \<and> 0 \<le> snd (y, 0::int)"
      by simp
  qed
  then have d1: "2 ^ 52 \<le> fst s1 \<or> snd s1 = 0" and d2: "0 \<le> snd s1" by blast+
  from d2 have f1: "- 1074 \<le> snd s1" by simp
  have st: "stuck 2048 s1"
  proof (cases s1)
    case (Pair m1 e1)
    from d1 show ?thesis
    proof
      assume "2 ^ 52 \<le> fst s1"
      then have a: "2 ^ 52 \<le> m1" by (simp add: Pair)
      have "2 ^ 52 * 2 \<le> m1 * 2 ^ 2048" using a by (intro mult_mono) simp_all
      then have "\<not> m1 * 2 ^ 2048 < 2 ^ 53" by simp
      then show ?thesis by (simp add: stuck_def Pair)
    next
      assume "snd s1 = 0"
      then show ?thesis by (simp add: stuck_def Pair)
    qed
  qed
  have r2: "represents y (fold scale_up shifts s1)"
    using scale_up_represents r1 by (rule fold_invariant)
  have f2: "- 1074 \<le> snd (fold scale_up shifts s1)"
    using scale_up_floor f1 by (rule fold_invariant)
  have "stuck 1024 (scale_up 1024 s1)" using scale_up_stuck[of 1024 s1] st by simp
  then have "stuck 512 (scale_up 512 (scale_up 1024 s1))"
    using scale_up_stuck[of 512] by simp
  then have "stuck 256 (scale_up 256 (scale_up 512 (scale_up 1024 s1)))"
    using scale_up_stuck[of 256] by simp
  then have "stuck 128 (scale_up 128 (scale_up 256 (scale_up 512 (scale_up 1024 s1))))"
    using scale_up_stuck[of 128] by simp
  then have "stuck 64 (scale_up 64 (scale_up 128 (scale_up 256 (scale_up 512
               (scale_up 1024 s1)))))"
    using scale_up_stuck[of 64] by simp
  then have "stuck 32 (scale_up 32 (scale_up 64 (scale_up 128 (scale_up 256 (scale_up 512
               (scale_up 1024 s1))))))"
    using scale_up_stuck[of 32] by simp
  then have "stuck 16 (scale_up 16 (scale_up 32 (scale_up 64 (scale_up 128 (scale_up 256
               (scale_up 512 (scale_up 1024 s1)))))))"
    using scale_up_stuck[of 16] by simp
  then have "stuck 8 (scale_up 8 (scale_up 16 (scale_up 32 (scale_up 64 (scale_up 128
               (scale_up 256 (scale_up 512 (scale_up 1024 s1))))))))"
    using scale_up_stuck[of 8] by simp
  then have "stuck 4 (scale_up 4 (scale_up 8 (scale_up 16 (scale_up 32 (scale_up 64
               (scale_up 128 (scale_up 256 (scale_up 512 (scale_up 1024 s1)))))))))"
    using scale_up_stuck[of 4] by simp
  then have "stuck 2 (scale_up 2 (scale_up 4 (scale_up 8 (scale_up 16 (scale_up 32
               (scale_up 64 (scale_up 128 (scale_up 256 (scale_up 512
               (scale_up 1024 s1))))))))))"
    using scale_up_stuck[of 2] by simp
  then have "stuck 1 (scale_up 1 (scale_up 2 (scale_up 4 (scale_up 8 (scale_up 16
               (scale_up 32 (scale_up 64 (scale_up 128 (scale_up 256 (scale_up 512
               (scale_up 1024 s1)))))))))))"
    using scale_up_stuck[of 1] by simp
  then have s2: "stuck 1 (fold scale_up shifts s1)"
    by (simp add: shifts_def)
  obtain m e where me: "fold scale_up shifts s1 = (m, e)"
    by (cases "fold scale_up shifts s1")
  from r2 f2 s2 have "0 < m" "m * pow2 e = y" "- 1074 \<le> e" "2 ^ 52 \<le> m \<or> e = - 1074"
    unfolding me by (auto simp: represents_def stuck_def)
  moreover have "normalise y = (m, e)" by (simp add: normalise_def s1_def[symmetric] me)
  ultimately show ?thesis by blast
qed

lemma round_to_even_bounds:
  "of_int (round_to_even m) \<le> m + 1 / 2" "m - 1 / 2 \<le> of_int (round_to_even m)"
  "\<lfloor>m\<rfloor> \<le> round_to_even m" "round_to_even m \<le> \<lceil>m\<rceil>"
  unfolding round_to_even_def Let_def by (auto simp: ceiling_altdef) linarith+

lemma round_double_lower:
  assumes "9 / 10 * (1 / 2 ^ 1074) \<le> y"
  shows "1 / 2 ^ 1074 \<le> round_double y"
proof -
  have pos: "0 < y" by (rule less_le_trans[OF _ assms]) simp
  from normalise_state[OF pos] obtain m e where
    n: "normalise y = (m, e)" and m: "0 < m" and v: "m * pow2 e = y"
    and e: "- 1074 \<le> e" and c: "2 ^ 52 \<le> m \<or> e = - 1074" by blast
  have "1 \<le> round_to_even m"
  proof -
    from c have "1 / 2 < m"
    proof
      assume "2 ^ 52 \<le> m"
      then show ?thesis by simp
    next
      assume "e = - 1074"
      with v have "m = y * 2 ^ 1074" by (simp add: pow2_def)
      with assms show ?thesis by simp
    qed
    then have "0 < m - 1 / 2" by simp
    with round_to_even_bounds(2)[of m] have "(0::real) < of_int (round_to_even m)" by linarith
    then show ?thesis by simp
  qed
  then have "(1::real) \<le> of_int (round_to_even m)" by simp
  then have "1 * pow2 e \<le> of_int (round_to_even m) * pow2 e"
    using pow2_positive[of e] by (intro mult_right_mono) simp_all
  then have "pow2 e \<le> of_int (round_to_even m) * pow2 e" by (simp only: mult_1)
  with pow2_lower[OF e] have "1 / 2 ^ 1074 \<le> of_int (round_to_even m) * pow2 e"
    by (rule order_trans)
  moreover have "round_double y = of_int (round_to_even m) * pow2 e"
    using pos by (simp add: round_double_def n)
  ultimately show ?thesis by (simp only:)
qed

lemma round_double_upper:
  assumes "0 < y" and "y \<le> 1"
  shows "round_double y \<le> 1"
proof -
  from normalise_state[OF assms(1)] obtain m e where
    n: "normalise y = (m, e)" and m: "0 < m" and v: "m * pow2 e = y"
    and e: "- 1074 \<le> e" and c: "2 ^ 52 \<le> m \<or> e = - 1074" by blast
  have rd: "round_double y = of_int (round_to_even m) * pow2 e"
    using assms(1) by (simp add: round_double_def n)
  have le0: "e \<le> 0"
  proof (rule ccontr)
    assume "\<not> e \<le> 0"
    then have e1: "0 < e" by simp
    with c have "2 ^ 52 \<le> m" by auto
    moreover from e1 have "1 \<le> pow2 e" by (simp add: pow2_def)
    ultimately have "2 ^ 52 * 1 \<le> m * pow2 e" by (intro mult_mono) simp_all
    with v assms(2) show False by simp
  qed
  define n' where "n' = nat (- e)"
  have p: "pow2 e = 1 / 2 ^ n'"
    using le0 by (cases "e = 0") (simp_all add: pow2_def n'_def)
  from v p have "m = y * 2 ^ n'" by (simp add: field_simps)
  with assms(2) have "m \<le> 2 ^ n'" by simp
  then have "m \<le> of_int (2 ^ n')" by simp
  then have "\<lceil>m\<rceil> \<le> 2 ^ n'" by (simp only: ceiling_le_iff)
  with round_to_even_bounds(4)[of m] have "round_to_even m \<le> 2 ^ n'" by linarith
  then have "(of_int (round_to_even m) :: real) \<le> 2 ^ n'"
    by (metis of_int_le_iff of_int_numeral of_int_power)
  then show ?thesis by (simp add: rd p field_simps)
qed

text \<open>
  C1 (amended).  Order-1 Armijo line search over doubles, for a direction of the size of
  \<open>x\<close> and a gradient \<open>g\<close> of the problem at \<open>x\<close>: the search returns \<open>alpha\<close> exactly when
  \<open>alpha\<close> is the \<open>k\<close>-th trial step (\<open>alpha_init\<close> multiplied \<open>k\<close> times by the double 0.9,
  each product rounded) for the smallest \<open>k\<close> at which the test
  \<open>value(x + alpha * d) > value(x) + alpha * (0.2 * (g . d))\<close> of the loop, evaluated in double
  arithmetic, is false.  A returned step satisfies the sufficient-decrease condition
  \<open>value(x + alpha * d) \<le> value(x) + alpha * (0.2 * (g . d))\<close> in double arithmetic provided
  neither side of it is NaN.
\<close>

theorem linesearch_least_backtrack:
  assumes "length d = length x" and "gradient_fp P x = Inr g" and "length g = length x"
  shows "(linesearch x d P alpha_init = Inr (Some alpha) \<longleftrightarrow>
           (\<exists>k. alpha = trial_step alpha_init k
                \<and> \<not> rejects P x d g alpha
                \<and> (\<forall>j<k. rejects P x d g (trial_step alpha_init j))))
       \<and> (linesearch x d P alpha_init = Inr (Some alpha)
            \<and> value_fp P (vadd x (smult alpha d)) \<noteq> NaN
            \<and> value_fp P x + alpha * (c * dot g d) \<noteq> NaN
           \<longrightarrow> armijo_condition P x d g alpha)"
proof -
  have "linesearch x d P alpha_init = Inr (Some alpha) \<longleftrightarrow>
        armijo_loop P x d (value_fp P x) (c * dot g d) alpha_init
          (value_fp P (vadd x (smult alpha_init d))) = Some alpha"
    by (simp add: linesearch_unfold[OF assms])
  also have "\<dots> \<longleftrightarrow> (\<exists>k. alpha = trial_step alpha_init k
                \<and> \<not> rejects P x d g (trial_step alpha_init k)
                \<and> (\<forall>j<k. rejects P x d g (trial_step alpha_init j)))"
    by (simp add: armijo_loop_Some_iff rejects_loop_test)
  also have "\<dots> \<longleftrightarrow> (\<exists>k. alpha = trial_step alpha_init k
                \<and> \<not> rejects P x d g alpha
                \<and> (\<forall>j<k. rejects P x d g (trial_step alpha_init j)))"
    by auto
  finally have iff: "linesearch x d P alpha_init = Inr (Some alpha) \<longleftrightarrow>
           (\<exists>k. alpha = trial_step alpha_init k
                \<and> \<not> rejects P x d g alpha
                \<and> (\<forall>j<k. rejects P x d g (trial_step alpha_init j)))" .
  have "armijo_condition P x d g alpha"
    if "linesearch x d P alpha_init = Inr (Some alpha)"
      and "value_fp P (vadd x (smult alpha d)) \<noteq> NaN"
      and "value_fp P x + alpha * (c * dot g d) \<noteq> NaN"
  proof -
    from that(1) iff have "\<not> rejects P x d g alpha" by blast
    then show ?thesis
      unfolding rejects_def armijo_condition_def
      using not_less_double[OF that(2,3)] by simp
  qed
  with iff show ?thesis by blast
qed

lemma parabola_step_rejected:
  "rejects parabola_fp [Num 1] [Num (- (7 / 4))] [Num 2] (Num 1)"
  by (simp add: rejects_def parabola_fp_def vadd_def smult_def dot_def c_val rounding)

lemma parabola_step_accepted:
  "\<not> rejects parabola_fp [Num 1] [Num (- (7 / 4))] [Num 2] (Num (8106479329266893 / 2 ^ 53))"
  by (simp add: rejects_def parabola_fp_def vadd_def smult_def dot_def c_val rounding)

lemma parabola_gradient_1: "gradient_fp parabola_fp [Num 1] = Inr [Num 2]"
  by (simp add: gradient_fp_def parabola_fp_def rounding)

lemma trial_step_1: "trial_step (Num 1) (Suc 0) = Num (8106479329266893 / 2 ^ 53)"
  by (simp add: trial_step_def rho_val rounding)

theorem linesearch_least_backtrack_witness:
  "length [Num (- (7 / 4))] = length [Num 1] \<and> gradient_fp parabola_fp [Num 1] = Inr [Num 2]
   \<and> length [Num 2] = length [Num 1]
   \<and> linesearch [Num 1] [Num (- (7 / 4))] parabola_fp (Num 1)
       = Inr (Some (Num (8106479329266893 / 2 ^ 53)))"
proof -
  have l: "length [Num (- (7 / 4))] = length [Num 1]" "length [Num 2] = length [Num 1]"
    by simp_all
  have "\<exists>k. Num (8106479329266893 / 2 ^ 53) = trial_step (Num 1) k
           \<and> \<not> rejects parabola_fp [Num 1] [Num (- (7 / 4))] [Num 2]
                  (Num (8106479329266893 / 2 ^ 53))
           \<and> (\<forall>j<k. rejects parabola_fp [Num 1] [Num (- (7 / 4))] [Num 2]
                        (trial_step (Num 1) j))"
  proof (intro exI[of _ 1] conjI allI impI)
    show "Num (8106479329266893 / 2 ^ 53) = trial_step (Num 1) 1"
      by (simp add: trial_step_1)
    show "\<not> rejects parabola_fp [Num 1] [Num (- (7 / 4))] [Num 2]
                  (Num (8106479329266893 / 2 ^ 53))"
      by (rule parabola_step_accepted)
    fix j :: nat assume "j < 1"
    then have "j = 0" by simp
    then show "rejects parabola_fp [Num 1] [Num (- (7 / 4))] [Num 2] (trial_step (Num 1) j)"
      by (simp add: trial_step_0 parabola_step_rejected)
  qed
  then have "linesearch [Num 1] [Num (- (7 / 4))] parabola_fp (Num 1)
               = Inr (Some (Num (8106479329266893 / 2 ^ 53)))"
    using linesearch_least_backtrack[OF l(1) parabola_gradient_1 l(2), of "Num 1"
            "Num (8106479329266893 / 2 ^ 53)"] by blast
  with parabola_gradient_1 l show ?thesis by simp
qed

lemma parabola_gradient_9_4: "gradient_fp parabola_fp [Num (9 / 4)] = Inr [Num (9 / 2)]"
  by (simp add: gradient_fp_def parabola_fp_def rounding)

lemma parabola_9_4_step_0:
  "loop_test parabola_fp [Num (9 / 4)] [Num (- 4)] (value_fp parabola_fp [Num (9 / 4)])
     (c * dot [Num (9 / 2)] [Num (- 4)]) (Num 1)"
  by (simp add: loop_test_def parabola_fp_def vadd_def smult_def dot_def c_val rounding)

lemma parabola_9_4_step_1:
  "loop_test parabola_fp [Num (9 / 4)] [Num (- 4)] (value_fp parabola_fp [Num (9 / 4)])
     (c * dot [Num (9 / 2)] [Num (- 4)]) (Num (8106479329266893 / 2 ^ 53))"
  by (simp add: loop_test_def parabola_fp_def vadd_def smult_def dot_def c_val rounding)

lemma parabola_9_4_step_2:
  "\<not> loop_test parabola_fp [Num (9 / 4)] [Num (- 4)] (value_fp parabola_fp [Num (9 / 4)])
     (c * dot [Num (9 / 2)] [Num (- 4)]) (Num (1823957849085051 / 2 ^ 51))"
  by (simp add: loop_test_def parabola_fp_def vadd_def smult_def dot_def c_val rounding)

lemma trial_step_2: "trial_step (Num 1) (Suc (Suc 0)) = Num (1823957849085051 / 2 ^ 51)"
proof -
  have "trial_step (Num 1) (Suc (Suc 0)) = trial_step (Num 1) (Suc 0) * rho"
    by (simp add: trial_step_def)
  also have "\<dots> = Num (1823957849085051 / 2 ^ 51)"
    by (simp add: trial_step_1 rho_val rounding)
  finally show ?thesis .
qed

lemma parabola_9_4_search:
  "linesearch [Num (9 / 4)] [Num (- 4)] parabola_fp (Num 1)
     = Inr (Some (Num (1823957849085051 / 2 ^ 51)))"
proof -
  have lt: "\<And>j::nat. j < Suc (Suc 0) \<Longrightarrow> j = 0 \<or> j = Suc 0" by arith
  have "armijo_loop parabola_fp [Num (9 / 4)] [Num (- 4)] (value_fp parabola_fp [Num (9 / 4)])
          (c * dot [Num (9 / 2)] [Num (- 4)]) (Num 1)
          (value_fp parabola_fp (vadd [Num (9 / 4)] (smult (Num 1) [Num (- 4)])))
        = Some (trial_step (Num 1) (Suc (Suc 0)))"
  proof (rule armijo_loop_steps)
    show "\<forall>j<Suc (Suc 0). loop_test parabola_fp [Num (9 / 4)] [Num (- 4)]
                   (value_fp parabola_fp [Num (9 / 4)]) (c * dot [Num (9 / 2)] [Num (- 4)])
                   (trial_step (Num 1) j)"
    proof (intro allI impI)
      fix j :: nat assume "j < Suc (Suc 0)"
      then have "j = 0 \<or> j = Suc 0" by (rule lt)
      then show "loop_test parabola_fp [Num (9 / 4)] [Num (- 4)]
                   (value_fp parabola_fp [Num (9 / 4)]) (c * dot [Num (9 / 2)] [Num (- 4)])
                   (trial_step (Num 1) j)"
        using parabola_9_4_step_0 parabola_9_4_step_1
        by (auto simp: trial_step_0 trial_step_1)
    qed
    show "\<not> loop_test parabola_fp [Num (9 / 4)] [Num (- 4)]
               (value_fp parabola_fp [Num (9 / 4)]) (c * dot [Num (9 / 2)] [Num (- 4)])
               (trial_step (Num 1) (Suc (Suc 0)))"
      unfolding trial_step_2 by (rule parabola_9_4_step_2)
  qed
  then show ?thesis
    using linesearch_unfold[of "[Num (- 4)]" "[Num (9 / 4)]" parabola_fp "[Num (9 / 2)]" "Num 1"]
    by (simp add: parabola_gradient_9_4 trial_step_2)
qed

lemma ratio_search:
  "linesearch [Num 1] [Num (- 1)] ratio (Num 1) = Inr (Some (Num 1))"
  by (subst linesearch_def, subst armijo_loop.simps)
     (simp add: ratio_def gradient_fp_def vadd_def smult_def dot_def c_val rounding)

lemma ratio_condition:
  "\<not> armijo_condition ratio [Num 1] [Num (- 1)] [Num 0] (Num 1)"
  by (simp add: armijo_condition_def ratio_def vadd_def smult_def dot_def c_val rounding)

text \<open>
  The claim C1 as worded fails.  On the objective \<open>x\<^sub>0\<^sup>2\<close> from \<open>x = [2.25]\<close> along \<open>d = [-4]\<close>
  with \<open>alpha_init = 1\<close> the search returns the double nearest 0.81, after two shrinks,
  although in exact arithmetic the condition holds at \<open>1 * 0.9^1\<close> (with equality) and fails
  at \<open>1 * 0.9^0\<close>; the returned step is not \<open>1 * 0.9^1\<close>.  On the objective \<open>x\<^sub>0 / x\<^sub>0\<close> from
  \<open>x = [1]\<close> along \<open>d = [-1]\<close> the first trial point is the origin, where the value is NaN: the
  search returns \<open>alpha_init\<close> and the sufficient-decrease condition is false there.
\<close>

theorem linesearch_least_backtrack_counterexample:
  "linesearch [Num (9 / 4)] [Num (- 4)] parabola_fp (Num 1)
     = Inr (Some (Num (1823957849085051 / 2 ^ 51)))
   \<and> gradient_fp parabola_fp [Num (9 / 4)] = Inr [Num (9 / 2)]
   \<and> armijo_exact (\<lambda>x. x ! 0 * x ! 0) [9 / 4] [- 4] [9 / 2] (1 * (9 / 10) ^ 1)
   \<and> \<not> armijo_exact (\<lambda>x. x ! 0 * x ! 0) [9 / 4] [- 4] [9 / 2] (1 * (9 / 10) ^ 0)
   \<and> (1823957849085051 / 2 ^ 51 :: real) \<noteq> 1 * (9 / 10) ^ 1
   \<and> linesearch [Num 1] [Num (- 1)] ratio (Num 1) = Inr (Some (Num 1))
   \<and> gradient_fp ratio [Num 1] = Inr [Num 0]
   \<and> \<not> armijo_condition ratio [Num 1] [Num (- 1)] [Num 0] (Num 1)"
proof -
  have "armijo_exact (\<lambda>x. x ! 0 * x ! 0) [9 / 4] [- 4] [9 / 2] (1 * (9 / 10) ^ 1)"
    by (simp add: armijo_exact_def)
  moreover have "\<not> armijo_exact (\<lambda>x. x ! 0 * x ! 0) [9 / 4] [- 4] [9 / 2] (1 * (9 / 10) ^ 0)"
    by (simp add: armijo_exact_def)
  moreover have "(1823957849085051 / 2 ^ 51 :: real) \<noteq> 1 * (9 / 10) ^ 1"
    by simp
  moreover have "gradient_fp ratio [Num 1] = Inr [Num 0]"
    by (simp add: gradient_fp_def ratio_def)
  ultimately show ?thesis
    using parabola_9_4_search parabola_gradient_9_4 ratio_search ratio_condition by blast
qed

text \<open>
  C8 (amended).  Over doubles, for every objective, \<open>x\<close>, direction and \<open>alpha_init\<close>: a failed
  test continues the loop at the rounded product \<open>alpha * rho\<close>; the search returns a step
  exactly when some \<open>k\<close> makes the test of the loop false at the \<open>k\<close>-th trial step, and it
  never returns exactly when no \<open>k\<close> does: nothing else bounds the loop.
\<close>

theorem linesearch_terminates_iff:
  assumes "length d = length x" and "gradient_fp P x = Inr g" and "length g = length x"
  shows "((\<exists>k. \<not> rejects P x d g (trial_step alpha_init k))
            \<longleftrightarrow> (\<exists>alpha. linesearch x d P alpha_init = Inr (Some alpha)))
       \<and> ((\<forall>k. rejects P x d g (trial_step alpha_init k))
            \<longleftrightarrow> linesearch x d P alpha_init = Inr None)
       \<and> (\<forall>alpha f. f > f_in + alpha * Cache \<longrightarrow>
             armijo_loop P x d f_in Cache alpha f
               = armijo_loop P x d f_in Cache (alpha * rho)
                   (value_fp P (vadd x (smult (alpha * rho) d))))"
proof (intro conjI allI impI)
  have unf: "linesearch x d P alpha_init
           = Inr (armijo_loop P x d (value_fp P x) (c * dot g d) alpha_init
                    (value_fp P (vadd x (smult alpha_init d))))"
    using assms(1-3) by (rule linesearch_unfold)
  have none: "linesearch x d P alpha_init = Inr None
                \<longleftrightarrow> (\<forall>k. rejects P x d g (trial_step alpha_init k))"
    by (simp add: unf armijo_loop_None_iff rejects_loop_test)
  then show "(\<forall>k. rejects P x d g (trial_step alpha_init k))
            \<longleftrightarrow> linesearch x d P alpha_init = Inr None" by simp
  have "(\<exists>alpha. linesearch x d P alpha_init = Inr (Some alpha))
          \<longleftrightarrow> linesearch x d P alpha_init \<noteq> Inr None"
    by (auto simp: unf)
  with none show "(\<exists>k. \<not> rejects P x d g (trial_step alpha_init k))
            \<longleftrightarrow> (\<exists>alpha. linesearch x d P alpha_init = Inr (Some alpha))" by blast
next
  fix alpha f :: double
  assume "f > f_in + alpha * Cache"
  then show "armijo_loop P x d f_in Cache alpha f
               = armijo_loop P x d f_in Cache (alpha * rho)
                   (value_fp P (vadd x (smult (alpha * rho) d)))"
    by (subst armijo_loop.simps) (simp add: Let_def)
qed

lemma rnd_zero: "rnd 0 = Num 0"
  by (simp add: rnd_def round_double_def)

lemma rnd_small:
  assumes "9 / 10 * (1 / 2 ^ 1074) \<le> y" and "y \<le> 1"
  shows "\<exists>b. rnd y = Num b \<and> 1 / 2 ^ 1074 \<le> b \<and> b \<le> 1"
proof -
  have pos: "0 < y" by (rule less_le_trans[OF _ assms(1)]) simp
  have lo: "1 / 2 ^ 1074 \<le> round_double y" using assms(1) by (rule round_double_lower)
  have hi: "round_double y \<le> 1" using pos assms(2) by (rule round_double_upper)
  have p: "0 < round_double y" by (rule less_le_trans[OF _ lo]) simp
  have "round_double y < 2 ^ 1024" by (rule le_less_trans[OF hi]) simp
  moreover have "- (2 ^ 1024) < round_double y" by (rule less_trans[OF _ p]) simp
  ultimately have "rnd y = Num (round_double y)"
    by (simp only: rnd_def Let_def not_le[symmetric] if_False)
  with lo hi show ?thesis by blast
qed

lemma trial_step_small:
  "\<exists>a. trial_step (Num 1) k = Num a \<and> 1 / 2 ^ 1074 \<le> a \<and> a \<le> 1"
proof (induction k)
  case 0
  show ?case by (simp add: trial_step_0)
next
  case (Suc k)
  then obtain a where a: "trial_step (Num 1) k = Num a" "1 / 2 ^ 1074 \<le> a" "a \<le> 1"
    by blast
  define r :: real where "r = 8106479329266893 / 2 ^ 53"
  have r: "9 / 10 \<le> r" "r \<le> 1" "0 \<le> r" by (simp_all add: r_def)
  have "trial_step (Num 1) (Suc k) = trial_step (Num 1) k * rho"
    by (simp add: trial_step_def)
  also have "\<dots> = rnd (a * r)" by (simp add: a(1) rho_val r_def)
  finally have t: "trial_step (Num 1) (Suc k) = rnd (a * r)" .
  have a0: "0 \<le> a" by (rule order_trans[OF _ a(2)]) simp
  have "1 / 2 ^ 1074 * (9 / 10) \<le> a * r"
    using a(2) r(1) by (intro mult_mono) simp_all
  then have lo: "9 / 10 * (1 / 2 ^ 1074) \<le> a * r" by (simp only: mult.commute)
  have "a * r \<le> 1 * 1" using a(3) r(2) a0 r(3) by (intro mult_mono) simp_all
  then have hi: "a * r \<le> 1" by simp
  from rnd_small[OF lo hi] t show ?case by simp
qed

lemma unit_step_rejects:
  assumes "1 / 2 ^ 1074 \<le> a" and "a \<le> 1"
  shows "rejects unit_step [Num 0] [Num 1] [Num 0] (Num a)"
proof -
  have "9 / 10 * (1 / 2 ^ 1074) \<le> (1 / 2 ^ 1074 :: real)" by simp
  then have s: "\<And>y::real. 1 / 2 ^ 1074 \<le> y \<Longrightarrow> 9 / 10 * (1 / 2 ^ 1074) \<le> y"
    by (rule order_trans)
  from rnd_small[OF s[OF assms(1)] assms(2)]
  obtain b where b: "rnd a = Num b" "1 / 2 ^ 1074 \<le> b" "b \<le> 1" by blast
  from rnd_small[OF s[OF b(2)] b(3)]
  obtain b' where b': "rnd b = Num b'" "1 / 2 ^ 1074 \<le> b'" "b' \<le> 1" by blast
  have pos: "0 < b'" by (rule less_le_trans[OF _ b'(2)]) simp
  have point: "vadd [Num 0] (smult (Num a) [Num 1]) = [Num b']"
    by (simp add: vadd_def smult_def b(1) b'(1))
  have rhs: "value_fp unit_step [Num 0] + Num a * (c * dot [Num 0] [Num 1]) = Num 0"
    by (simp add: unit_step_def dot_def c_val rnd_zero)
  show ?thesis
    unfolding rejects_def point rhs using pos by (simp add: unit_step_def)
qed

theorem linesearch_terminates_iff_witness:
  "length [Num (- (7 / 4))] = length [Num 1] \<and> gradient_fp parabola_fp [Num 1] = Inr [Num 2]
   \<and> length [Num 2] = length [Num 1]
   \<and> (\<exists>alpha. linesearch [Num 1] [Num (- (7 / 4))] parabola_fp (Num 1) = Inr (Some alpha))
   \<and> length [Num 1] = length [Num 0] \<and> gradient_fp unit_step [Num 0] = Inr [Num 0]
   \<and> linesearch [Num 0] [Num 1] unit_step (Num 1) = Inr None"
proof -
  have g: "gradient_fp unit_step [Num 0] = Inr [Num 0]"
    by (simp add: gradient_fp_def unit_step_def)
  have l0: "length [Num 1] = length [Num 0]" "length [Num 0] = length [Num 0]" by simp_all
  have "rejects unit_step [Num 0] [Num 1] [Num 0] (trial_step (Num 1) k)" for k
    using trial_step_small[of k] unit_step_rejects by auto
  then have none: "linesearch [Num 0] [Num 1] unit_step (Num 1) = Inr None"
    using linesearch_terminates_iff[OF l0(1) g l0(2), of "Num 1"] by blast
  have l: "length [Num (- (7 / 4))] = length [Num 1]" "length [Num 2] = length [Num 1]"
    by simp_all
  have "\<not> rejects parabola_fp [Num 1] [Num (- (7 / 4))] [Num 2] (trial_step (Num 1) (Suc 0))"
    unfolding trial_step_1 by (rule parabola_step_accepted)
  then have "\<exists>k. \<not> rejects parabola_fp [Num 1] [Num (- (7 / 4))] [Num 2] (trial_step (Num 1) k)"
    by blast
  then have "\<exists>alpha. linesearch [Num 1] [Num (- (7 / 4))] parabola_fp (Num 1) = Inr (Some alpha)"
    using linesearch_terminates_iff[OF l(1) parabola_gradient_1 l(2), of "Num 1"] by blast
  with parabola_gradient_1 l g none l0 show ?thesis by simp
qed

lemma ascent_search:
  "linesearch [Num (2 ^ 60)] [Num 1] ascent (Num 1) = Inr (Some (Num 1))"
  by (subst linesearch_def, subst armijo_loop.simps)
     (simp add: ascent_def gradient_fp_def vadd_def smult_def dot_def c_val rounding)

lemma ascent_exact:
  "\<not> armijo_exact (\<lambda>x. x ! 0) [2 ^ 60] [1] [1] (1 * (9 / 10) ^ k)"
proof -
  have "(0::real) < (9 / 10) ^ k" by simp
  then show ?thesis by (simp add: armijo_exact_def)
qed

lemma smallest_step_not_reduced: "Num (5 / 2 ^ 1074) * rho = Num (5 / 2 ^ 1074)"
  by (simp add: rho_val rounding)

text \<open>
  The claim C8 as worded fails.  On the objective \<open>x\<^sub>0\<close> from \<open>x = [2^60]\<close> along \<open>d = [1]\<close> with
  \<open>alpha_init = 1\<close> no \<open>k\<close> makes the Armijo condition hold at \<open>1 * 0.9^k\<close>, the objective
  increasing along the ray, yet the search returns at once: \<open>2^60 + 1\<close> rounds to \<open>2^60\<close>.  And
  at the step \<open>5 * 2^-1074\<close> a failed iteration leaves \<open>alpha\<close> as it is, the product with 0.9
  rounding back to it.
\<close>

theorem linesearch_terminates_iff_counterexample:
  "linesearch [Num (2 ^ 60)] [Num 1] ascent (Num 1) = Inr (Some (Num 1))
   \<and> gradient_fp ascent [Num (2 ^ 60)] = Inr [Num 1]
   \<and> (\<forall>k. \<not> armijo_exact (\<lambda>x. x ! 0) [2 ^ 60] [1] [1] (1 * (9 / 10) ^ k))
   \<and> Num (5 / 2 ^ 1074) * rho = Num (5 / 2 ^ 1074)"
proof -
  have "gradient_fp ascent [Num (2 ^ 60)] = Inr [Num 1]"
    by (simp add: gradient_fp_def ascent_def)
  then show ?thesis
    using ascent_search ascent_exact smallest_step_not_reduced by blast
qed

section \<open>checkGradient\<close>

lemma checkGradient_loop_eq:
  assumes "\<forall>d\<in>set ds. d < length a \<and> d < length e"
  shows "checkGradient_loop a e ds = Inr (\<forall>d\<in>set ds. \<not> exceeds_tolerance (a ! d) (e ! d))"
  using assms
proof (induction ds)
  case Nil
  show ?case by simp
next
  case (Cons d ds)
  from Cons.prems have inr: "\<not> (length a \<le> d \<or> length e \<le> d)" by auto
  from Cons.prems have "\<forall>d\<in>set ds. d < length a \<and> d < length e" by simp
  then have IH: "checkGradient_loop a e ds
                   = Inr (\<forall>d\<in>set ds. \<not> exceeds_tolerance (a ! d) (e ! d))"
    by (rule Cons.IH)
  have "checkGradient_loop a e (d # ds)
          = (if exceeds_tolerance (a ! d) (e ! d) then Inr False else checkGradient_loop a e ds)"
    using inr by (simp only: checkGradient_loop.simps Let_def exceeds_tolerance_def if_False)
  with IH show ?case by simp
qed

lemma finiteGradient_fp_valid:
  assumes "0 \<le> accuracy" and "accuracy \<le> 3"
  shows "\<exists>numeric. finiteGradient_fp P x accuracy = Inr numeric \<and> length numeric = length x"
  using assms by (simp add: finiteGradient_fp_def)







lemma parabola_finiteGradient_3:
  assumes "value_fp P = (\<lambda>x. x ! 0 * x ! 0)"
  shows "finiteGradient_fp P [Num 3] 0 = Inr [Num (3377699720320663 / 2 ^ 49)]"
  by (simp add: finiteGradient_fp_def finiteDiff_at_fp_def assms coeff_def coeff2_def dd_def
        upt_conv_Cons eps_gradient_val zero_double_def rounding)

lemma parabola_within_tolerance:
  "\<not> exceeds_tolerance (Num 6) (Num (3377699720320663 / 2 ^ 49))"
  by (simp add: exceeds_tolerance_def std_max_def minus_double_def tolerance_val rounding)


lemma parabola_gradient_3: "gradient_fp parabola_fp [Num 3] = Inr [Num 6]"
  by (simp add: gradient_fp_def parabola_fp_def rounding)







section \<open>What a call writes\<close>

lemma store_vector_frame:
  "top (store_vector a v s) = top s"
  "b \<noteq> a \<Longrightarrow> cells (store_vector a v s) b = cells s b"
  by (simp_all add: store_vector_def)

lemma store_matrix_frame:
  "top (store_matrix a M s) = top s"
  "b \<noteq> a \<Longrightarrow> cells (store_matrix a M s) b = cells s b"
  by (simp_all add: store_matrix_def)

lemma finiteGradient_call_frame:
  assumes "finiteGradient_call P x grad accuracy s = Inr s'"
  shows "top s' = top s" and "b \<noteq> grad \<Longrightarrow> cells s' b = cells s b"
  using assms
  by (auto simp: finiteGradient_call_def store_vector_frame split: sum.splits)

lemma finiteHessian_call_frame:
  assumes "finiteHessian_call P x hess accuracy s = Inr s'"
  shows "top s' = top s" and "b \<noteq> hess \<Longrightarrow> cells s' b = cells s b"
  using assms
  by (auto simp: finiteHessian_call_def store_matrix_frame split: sum.splits)

lemma gradient_call_frame:
  assumes "gradient_call P x grad s = Inr s'"
  shows "top s' = top s" and "b \<noteq> grad \<Longrightarrow> cells s' b = cells s b"
  using assms finiteGradient_call_frame[of P x grad 0 s s']
  by (auto simp: gradient_call_def store_vector_frame split: option.splits)

lemma hessian_call_frame:
  assumes "hessian_call P x hess s = Inr s'"
  shows "top s' = top s" and "b \<noteq> hess \<Longrightarrow> cells s' b = cells s b"
  using assms finiteHessian_call_frame[of P x hess 0 s s']
  by (auto simp: hessian_call_def store_matrix_frame split: option.splits)

lemma alloc_frame:
  assumes "alloc object s = (a, s')"
  shows "a = top s" and "top s' = Suc (top s)" and "b < top s \<Longrightarrow> cells s' b = cells s b"
  using assms by (auto simp: alloc_def)

lemma checkGradient_call_frame:
  assumes "checkGradient_call P x accuracy s = Inr (result, s')"
  shows "top s' = top s \<and> (\<forall>b<top s. cells s' b = cells s b)"
proof -
  obtain a1 s1 where a1: "alloc (Zero_fp (length (load_vector s x)) 1) s = (a1, s1)"
    by (cases "alloc (Zero_fp (length (load_vector s x)) 1) s")
  obtain a2 s2 where a2: "alloc (Zero_fp (length (load_vector s x)) 1) s1 = (a2, s2)"
    by (cases "alloc (Zero_fp (length (load_vector s x)) 1) s1")
  from assms obtain s3 s4 where
    g: "gradient_call P x a1 s2 = Inr s3" and
    f: "finiteGradient_call P x a2 accuracy s3 = Inr s4" and
    r: "s' = release 2 s4"
    unfolding checkGradient_call_def Let_def a1 a2 prod.case
    by (auto split: sum.splits)
  note f1 = alloc_frame[OF a1] and f2 = alloc_frame[OF a2]
    and f3 = gradient_call_frame[OF g] and f4 = finiteGradient_call_frame[OF f]
  have "top s' = top s"
    by (simp add: r release_def f4(1) f3(1) f2(2) f1(2))
  moreover have "cells s' b = cells s b" if "b < top s" for b
  proof -
    have "cells s' b = cells s4 b" by (simp add: r release_def)
    also have "\<dots> = cells s3 b" using that by (intro f4(2)) (simp add: f2(1) f1(2))
    also have "\<dots> = cells s2 b" using that by (intro f3(2)) (simp add: f1(1))
    also have "\<dots> = cells s1 b" using that by (intro f2(3)) (simp add: f1(2))
    also have "\<dots> = cells s b" using that by (rule f1(3))
    finally show ?thesis .
  qed
  ultimately show ?thesis by blast
qed

lemma checkHessian_call_frame:
  assumes "checkHessian_call P x accuracy s = Inr (result, s')"
  shows "top s' = top s \<and> (\<forall>b<top s. cells s' b = cells s b)"
proof -
  define Z where "Z = Zero_fp (length (load_vector s x)) (length (load_vector s x))"
  obtain a1 s1 where a1: "alloc Z s = (a1, s1)" by (cases "alloc Z s")
  obtain a2 s2 where a2: "alloc Z s1 = (a2, s2)" by (cases "alloc Z s1")
  from assms obtain s3 s4 where
    g: "hessian_call P x a1 s2 = Inr s3" and
    f: "finiteHessian_call P x a2 accuracy s3 = Inr s4" and
    r: "s' = release 2 s4"
    unfolding checkHessian_call_def Let_def Z_def[symmetric] a1 a2 prod.case
    by (auto split: sum.splits)
  note f1 = alloc_frame[OF a1] and f2 = alloc_frame[OF a2]
    and f3 = hessian_call_frame[OF g] and f4 = finiteHessian_call_frame[OF f]
  have "top s' = top s"
    by (simp add: r release_def f4(1) f3(1) f2(2) f1(2))
  moreover have "cells s' b = cells s b" if "b < top s" for b
  proof -
    have "cells s' b = cells s4 b" by (simp add: r release_def)
    also have "\<dots> = cells s3 b" using that by (intro f4(2)) (simp add: f2(1) f1(2))
    also have "\<dots> = cells s2 b" using that by (intro f3(2)) (simp add: f1(1))
    also have "\<dots> = cells s1 b" using that by (intro f2(3)) (simp add: f1(2))
    also have "\<dots> = cells s b" using that by (rule f1(3))
    finally show ?thesis .
  qed
  ultimately show ?thesis by blast
qed

lemma linesearch_call_frame:
  assumes "linesearch_call x searchDir objFunc alpha_init s = Inr (Some (alpha, s'))"
  shows "top s' = top s \<and> (\<forall>b<top s. cells s' b = cells s b)"
proof -
  obtain a1 s1 where a1: "alloc (Zero_fp (length (load_vector s x)) 1) s = (a1, s1)"
    by (cases "alloc (Zero_fp (length (load_vector s x)) 1) s")
  from assms obtain s2 where
    g: "gradient_call objFunc x a1 s1 = Inr s2" and
    r: "s' = release 1 s2"
    unfolding linesearch_call_def Let_def a1 prod.case
    by (auto split: sum.splits if_splits)
  note f1 = alloc_frame[OF a1] and f2 = gradient_call_frame[OF g]
  have "top s' = top s"
    by (simp add: r release_def f2(1) f1(2))
  moreover have "cells s' b = cells s b" if "b < top s" for b
  proof -
    have "cells s' b = cells s2 b" by (simp add: r release_def)
    also have "\<dots> = cells s1 b" using that by (intro f2(2)) (simp add: f1(1))
    also have "\<dots> = cells s b" using that by (rule f1(3))
    finally show ?thesis .
  qed
  ultimately show ?thesis by blast
qed

text \<open>
  C9 (amended).  For objects \<open>x\<close> and \<open>searchDir\<close> of the caller: a call of \<open>finiteGradient\<close>
  or \<open>finiteHessian\<close> that returns has written the object passed as the out-parameter and
  no other, so \<open>x\<close> is unchanged unless \<open>x\<close> itself is passed as the out-parameter; a call of
  \<open>checkGradient\<close>, \<open>checkHessian\<close> or \<open>linesearch\<close> that returns leaves every object of the
  caller unchanged, \<open>x\<close> and \<open>searchDir\<close> among them, and delivers its result as the return
  value.
\<close>

theorem calls_leave_inputs_unchanged:
  assumes "x < top s" and "searchDir < top s"
  shows "(\<forall>s'. finiteGradient_call P x grad accuracy s = Inr s' \<longrightarrow>
            top s' = top s \<and> (\<forall>b. b \<noteq> grad \<longrightarrow> cells s' b = cells s b)
            \<and> (grad \<noteq> x \<longrightarrow> cells s' x = cells s x))
       \<and> (\<forall>s'. finiteHessian_call P x hess accuracy s = Inr s' \<longrightarrow>
            top s' = top s \<and> (\<forall>b. b \<noteq> hess \<longrightarrow> cells s' b = cells s b)
            \<and> (hess \<noteq> x \<longrightarrow> cells s' x = cells s x))
       \<and> (\<forall>result s'. checkGradient_call P x accuracy s = Inr (result, s') \<longrightarrow>
            top s' = top s \<and> (\<forall>b<top s. cells s' b = cells s b) \<and> cells s' x = cells s x)
       \<and> (\<forall>result s'. checkHessian_call P x accuracy s = Inr (result, s') \<longrightarrow>
            top s' = top s \<and> (\<forall>b<top s. cells s' b = cells s b) \<and> cells s' x = cells s x)
       \<and> (\<forall>alpha s'. linesearch_call x searchDir P alpha_init s = Inr (Some (alpha, s')) \<longrightarrow>
            top s' = top s \<and> (\<forall>b<top s. cells s' b = cells s b)
            \<and> cells s' x = cells s x \<and> cells s' searchDir = cells s searchDir)"
proof (intro conjI allI impI)
  fix s' assume "finiteGradient_call P x grad accuracy s = Inr s'"
  note f = finiteGradient_call_frame[OF this]
  show "top s' = top s" by (rule f(1))
  show "cells s' b = cells s b" if "b \<noteq> grad" for b using that by (rule f(2))
  show "cells s' x = cells s x" if "grad \<noteq> x" using that by (intro f(2)) simp
next
  fix s' assume "finiteHessian_call P x hess accuracy s = Inr s'"
  note f = finiteHessian_call_frame[OF this]
  show "top s' = top s" by (rule f(1))
  show "cells s' b = cells s b" if "b \<noteq> hess" for b using that by (rule f(2))
  show "cells s' x = cells s x" if "hess \<noteq> x" using that by (intro f(2)) simp
next
  fix result s' assume "checkGradient_call P x accuracy s = Inr (result, s')"
  note f = checkGradient_call_frame[OF this]
  from f show "top s' = top s" by blast
  from f show "cells s' b = cells s b" if "b < top s" for b using that by blast
  from f assms(1) show "cells s' x = cells s x" by blast
next
  fix result s' assume "checkHessian_call P x accuracy s = Inr (result, s')"
  note f = checkHessian_call_frame[OF this]
  from f show "top s' = top s" by blast
  from f show "cells s' b = cells s b" if "b < top s" for b using that by blast
  from f assms(1) show "cells s' x = cells s x" by blast
next
  fix alpha s' assume "linesearch_call x searchDir P alpha_init s = Inr (Some (alpha, s'))"
  note f = linesearch_call_frame[OF this]
  from f show "top s' = top s" by blast
  from f show "cells s' b = cells s b" if "b < top s" for b using that by blast
  from f assms(1) show "cells s' x = cells s x" by blast
  from f assms(2) show "cells s' searchDir = cells s searchDir" by blast
qed

section \<open>A call returns what the body computes\<close>

lemma load_store_vector:
  "load_vector (store_vector a v s) a = v"
  "b \<noteq> a \<Longrightarrow> load_vector (store_vector a v s) b = load_vector s b"
  by (simp_all add: load_vector_def store_vector_def concat_map_singleton)

lemma load_alloc:
  assumes "alloc object s = (a, s')" and "b < top s"
  shows "load_vector s' b = load_vector s b" and "load_matrix s' b = load_matrix s b"
  using assms by (auto simp: alloc_def load_vector_def load_matrix_def)

lemma gradient_call_result:
  "gradient_call P x grad s
     = (case gradient_fp P (load_vector s x) of
          Inl e \<Rightarrow> Inl e
        | Inr g \<Rightarrow> Inr (store_vector grad g s))"
  by (simp add: gradient_call_def gradient_fp_def finiteGradient_call_def split: option.splits)

lemma checkGradient_call_result:
  assumes "x < top s"
  shows "map_sum id fst (checkGradient_call P x accuracy s)
           = checkGradient P (load_vector s x) accuracy"
proof -
  define X where "X = load_vector s x"
  obtain a1 s1 where a1: "alloc (Zero_fp (length X) 1) s = (a1, s1)"
    by (cases "alloc (Zero_fp (length X) 1) s")
  obtain a2 s2 where a2: "alloc (Zero_fp (length X) 1) s1 = (a2, s2)"
    by (cases "alloc (Zero_fp (length X) 1) s1")
  have t: "a1 = top s" "top s1 = Suc (top s)" "a2 = Suc (top s)"
    using a1 a2 by (auto simp: alloc_def)
  have x2: "load_vector s2 x = X"
    using load_alloc(1)[OF a2, of x] load_alloc(1)[OF a1 assms] assms t
    by (simp add: X_def)
  have ne: "x \<noteq> a1" "a1 \<noteq> a2" "x \<noteq> a2" using assms t by simp_all
  show ?thesis
  proof (cases "gradient_fp P X")
    case (Inl e)
    then show ?thesis
      unfolding checkGradient_call_def checkGradient_def Let_def X_def[symmetric] a1 a2 prod.case
      by (simp add: gradient_call_result x2)
  next
    case g: (Inr g)
    show ?thesis
    proof (cases "finiteGradient_fp P X accuracy")
      case (Inl e)
      with g show ?thesis
        unfolding checkGradient_call_def checkGradient_def Let_def X_def[symmetric] a1 a2 prod.case
        using ne by (simp add: gradient_call_result finiteGradient_call_def x2 load_store_vector)
    next
      case (Inr e)
      with g show ?thesis
        unfolding checkGradient_call_def checkGradient_def Let_def X_def[symmetric] a1 a2 prod.case
        using ne
        by (simp add: gradient_call_result finiteGradient_call_def x2 load_store_vector
              split: sum.splits)
    qed
  qed
qed

lemma linesearch_call_result:
  assumes "x < top s" and "searchDir < top s"
  shows "map_sum id (map_option fst) (linesearch_call x searchDir objFunc alpha_init s)
           = linesearch (load_vector s x) (load_vector s searchDir) objFunc alpha_init"
proof -
  define X where "X = load_vector s x"
  define Dv where "Dv = load_vector s searchDir"
  obtain a1 s1 where a1: "alloc (Zero_fp (length X) 1) s = (a1, s1)"
    by (cases "alloc (Zero_fp (length X) 1) s")
  have t: "a1 = top s" using a1 by (auto simp: alloc_def)
  have x1: "load_vector s1 x = X" "load_vector s1 searchDir = Dv"
    using load_alloc(1)[OF a1 assms(1)] load_alloc(1)[OF a1 assms(2)]
    by (simp_all add: X_def Dv_def)
  have ne: "x \<noteq> a1" "searchDir \<noteq> a1" using assms t by simp_all
  show ?thesis
  proof (cases "length Dv = length X")
    case False
    then show ?thesis
      by (simp add: linesearch_call_def linesearch_def X_def Dv_def)
  next
    case True
    show ?thesis
    proof (cases "gradient_fp objFunc X")
      case (Inl e)
      with True show ?thesis
        unfolding linesearch_call_def linesearch_def Let_def X_def[symmetric] Dv_def[symmetric]
          a1 prod.case
        by (simp add: gradient_call_result x1)
    next
      case (Inr g)
      with True show ?thesis
        unfolding linesearch_call_def linesearch_def Let_def X_def[symmetric] Dv_def[symmetric]
          a1 prod.case
        using ne
        by (simp add: gradient_call_result x1 load_store_vector option.map_comp o_def
              option.map_ident)
    qed
  qed
qed

lemma load_store_matrix:
  "load_matrix (store_matrix a M s) a = M"
  "b \<noteq> a \<Longrightarrow> load_matrix (store_matrix a M s) b = load_matrix s b"
  "b \<noteq> a \<Longrightarrow> load_vector (store_matrix a M s) b = load_vector s b"
  by (simp_all add: load_matrix_def load_vector_def store_matrix_def)

lemma hessian_call_result:
  "hessian_call P x hess s
     = (case hessian_fp P (load_vector s x) (load_matrix s hess) of
          Inl e \<Rightarrow> Inl e
        | Inr H \<Rightarrow> Inr (store_matrix hess H s))"
  by (simp add: hessian_call_def hessian_fp_def finiteHessian_call_def split: option.splits)

lemma checkHessian_call_result:
  assumes "x < top s"
  shows "map_sum id fst (checkHessian_call P x accuracy s)
           = checkHessian P (load_vector s x) accuracy"
proof -
  define X where "X = load_vector s x"
  define Z where "Z = Zero_fp (length X) (length X)"
  obtain a1 s1 where a1: "alloc Z s = (a1, s1)" by (cases "alloc Z s")
  obtain a2 s2 where a2: "alloc Z s1 = (a2, s2)" by (cases "alloc Z s1")
  have t: "a1 = top s" "top s1 = Suc (top s)" "a2 = Suc (top s)"
    using a1 a2 by (auto simp: alloc_def)
  have x2: "load_vector s2 x = X"
    using load_alloc(1)[OF a2, of x] load_alloc(1)[OF a1 assms] assms t
    by (simp add: X_def)
  have m: "load_matrix s2 a1 = Z" "load_matrix s2 a2 = Z"
    using a1 a2 by (auto simp: alloc_def load_matrix_def)
  have ne: "x \<noteq> a1" "a1 \<noteq> a2" "a2 \<noteq> a1" "x \<noteq> a2" using assms t by simp_all
  show ?thesis
  proof (cases "hessian_fp P X Z")
    case (Inl e)
    then show ?thesis
      unfolding checkHessian_call_def checkHessian_def Let_def X_def[symmetric] Z_def[symmetric]
        a1 a2 prod.case
      by (simp add: hessian_call_result x2 m)
  next
    case g: (Inr g)
    show ?thesis
    proof (cases "finiteHessian_fp P X Z accuracy")
      case (Inl e)
      with g show ?thesis
        unfolding checkHessian_call_def checkHessian_def Let_def X_def[symmetric] Z_def[symmetric]
          a1 a2 prod.case
        using ne
        by (simp add: hessian_call_result finiteHessian_call_def x2 m load_store_matrix)
    next
      case (Inr e)
      with g show ?thesis
        unfolding checkHessian_call_def checkHessian_def Let_def X_def[symmetric] Z_def[symmetric]
          a1 a2 prod.case
        using ne
        by (simp add: hessian_call_result finiteHessian_call_def x2 m load_store_matrix
              split: sum.splits)
    qed
  qed
qed

lemma parabola_search:
  "linesearch [Num 1] [Num (- (7 / 4))] parabola_fp (Num 1)
     = Inr (Some (Num (8106479329266893 / 2 ^ 53)))"
proof -
  have "armijo_loop parabola_fp [Num 1] [Num (- (7 / 4))] (value_fp parabola_fp [Num 1])
          (c * dot [Num 2] [Num (- (7 / 4))]) (Num 1)
          (value_fp parabola_fp (vadd [Num 1] (smult (Num 1) [Num (- (7 / 4))])))
        = Some (trial_step (Num 1) (Suc 0))"
  proof (rule armijo_loop_steps)
    show "\<forall>j<Suc 0. loop_test parabola_fp [Num 1] [Num (- (7 / 4))]
            (value_fp parabola_fp [Num 1]) (c * dot [Num 2] [Num (- (7 / 4))])
            (trial_step (Num 1) j)"
      using parabola_step_rejected by (simp add: rejects_loop_test trial_step_0)
    show "\<not> loop_test parabola_fp [Num 1] [Num (- (7 / 4))]
            (value_fp parabola_fp [Num 1]) (c * dot [Num 2] [Num (- (7 / 4))])
            (trial_step (Num 1) (Suc 0))"
      unfolding trial_step_1 rejects_loop_test by (rule parabola_step_accepted)
  qed
  then show ?thesis
    using linesearch_unfold[of "[Num (- (7 / 4))]" "[Num 1]" parabola_fp "[Num 2]" "Num 1"]
    by (simp add: parabola_gradient_1 trial_step_1)
qed

lemma parabola_check: "checkGradient parabola_fp [Num 3] 0 = Inr True"
proof -
  have "checkGradient_loop [Num 6] [Num (3377699720320663 / 2 ^ 49)] [0 ..< length [Num 3]]
          = Inr (\<forall>d\<in>set [0 ..< length [Num 3]].
                   \<not> exceeds_tolerance ([Num 6] ! d) ([Num (3377699720320663 / 2 ^ 49)] ! d))"
    by (rule checkGradient_loop_eq) simp
  also have "\<dots> = Inr True"
    using parabola_within_tolerance by simp
  finally show ?thesis
    unfolding checkGradient_def Let_def parabola_gradient_3
      parabola_finiteGradient_3[of parabola_fp, unfolded parabola_fp_def, simplified,
        folded parabola_fp_def]
    by simp
qed

lemma memory0_point: "load_vector memory0 0 = [Num 3]" "cells memory0 0 = [[Num 3]]"
  by (simp_all add: load_vector_def memory0_def)

lemma memory1_point:
  "load_vector memory1 0 = [Num 1]" "load_vector memory1 (Suc 0) = [Num (- (7 / 4))]"
  by (simp_all add: load_vector_def memory1_def)

lemma call_returned:
  assumes "map_sum id fst r = Inr v"
  shows "\<exists>s'. r = Inr (v, s')"
  using assms by (cases r) auto

lemma search_returned:
  assumes "map_sum id (map_option fst) r = Inr (Some v)"
  shows "\<exists>s'. r = Inr (Some (v, s'))"
  using assms by (cases r) auto

theorem calls_leave_inputs_unchanged_witness:
  "(0::nat) < top memory0 \<and> (0::nat) < top memory1 \<and> (1::nat) < top memory1
   \<and> (\<exists>s'. finiteGradient_call parabola_fp 0 1 0 memory0 = Inr s'
            \<and> cells s' 0 = cells memory0 0)
   \<and> (\<exists>result s'. checkGradient_call parabola_fp 0 0 memory0 = Inr (result, s')
            \<and> cells s' 0 = cells memory0 0)
   \<and> (\<exists>alpha s'. linesearch_call 0 1 parabola_fp (Num 1) memory1 = Inr (Some (alpha, s'))
            \<and> cells s' 0 = cells memory1 0 \<and> cells s' 1 = cells memory1 1)"
proof -
  have t0: "(0::nat) < top memory0" by (simp add: memory0_def)
  have t1: "(0::nat) < top memory1" "(1::nat) < top memory1" by (simp_all add: memory1_def)
  obtain s1 where s1: "finiteGradient_call parabola_fp 0 1 0 memory0 = Inr s1"
    using finiteGradient_fp_valid[of 0 parabola_fp "load_vector memory0 0"]
    by (auto simp: finiteGradient_call_def)
  obtain s2 where s2: "checkGradient_call parabola_fp 0 0 memory0 = Inr (True, s2)"
    using call_returned[of "checkGradient_call parabola_fp 0 0 memory0" True]
      checkGradient_call_result[OF t0, of parabola_fp 0]
    by (auto simp: memory0_point parabola_check)
  obtain s3 where s3: "linesearch_call 0 1 parabola_fp (Num 1) memory1
                         = Inr (Some (Num (8106479329266893 / 2 ^ 53), s3))"
    using search_returned[of "linesearch_call 0 1 parabola_fp (Num 1) memory1"
            "Num (8106479329266893 / 2 ^ 53)"]
      linesearch_call_result[OF t1, of parabola_fp "Num 1"] parabola_search
    by (auto simp: memory1_point)
  have ne: "(1::nat) \<noteq> 0" by simp
  from calls_leave_inputs_unchanged[where x = 0 and s = memory0 and searchDir = 0
         and P = parabola_fp and grad = 1 and accuracy = 0 and hess = 1
         and alpha_init = "Num 1", OF t0 t0] s1 s2 ne
  have "cells s1 0 = cells memory0 0" "cells s2 0 = cells memory0 0" by blast+
  moreover from calls_leave_inputs_unchanged[where x = 0 and s = memory1 and searchDir = 1
         and P = parabola_fp and grad = 1 and accuracy = 0 and hess = 1
         and alpha_init = "Num 1", OF t1] s3
  have "cells s3 0 = cells memory1 0" "cells s3 1 = cells memory1 1" by blast+
  ultimately show ?thesis using t0 t1 s1 s2 s3 by blast
qed

text \<open>
  The claim C9 as worded fails.  Nothing keeps a caller from passing \<open>x\<close> itself as the
  out-parameter: \<open>finiteGradient(x, x)\<close> on the objective \<open>x\<^sub>0\<^sup>2\<close> at \<open>x = [3]\<close> returns with the
  numeric gradient in \<open>x\<close>.  (With \<open>Dim_ = 1\<close> the same holds of \<open>finiteHessian(x, x)\<close>.)
\<close>

theorem calls_leave_inputs_unchanged_counterexample:
  "cells memory0 0 = [[Num 3]]
   \<and> (\<exists>s'. finiteGradient_call parabola_fp 0 0 0 memory0 = Inr s'
            \<and> cells s' 0 = [[Num (3377699720320663 / 2 ^ 49)]])"
proof -
  have "finiteGradient_fp parabola_fp (load_vector memory0 0) 0
          = Inr [Num (3377699720320663 / 2 ^ 49)]"
    unfolding memory0_point by (rule parabola_finiteGradient_3) (simp add: parabola_fp_def)
  then have "finiteGradient_call parabola_fp 0 0 0 memory0
               = Inr (store_vector 0 [Num (3377699720320663 / 2 ^ 49)] memory0)"
    by (simp add: finiteGradient_call_def)
  moreover have "cells (store_vector 0 [Num (3377699720320663 / 2 ^ 49)] memory0) 0
                   = [[Num (3377699720320663 / 2 ^ 49)]]"
    by (simp add: store_vector_def)
  ultimately show ?thesis using memory0_point(2) by blast
qed

section \<open>The finite-difference Hessian over doubles\<close>

lemma eps_hessian_val: "eps_hessian_fp = Num (390625 / 2 ^ 44)"
  by (simp add: eps_hessian_fp_def rounding)

lemma bowl_values:
  "value_fp bowl [Num 1] = Num 1"
  "value_fp bowl [Num 1 + eps_hessian_fp + eps_hessian_fp] = Num (4503600027370505 / 2 ^ 52)"
  "value_fp bowl [Num 1 + eps_hessian_fp + eps_hessian_fp - eps_hessian_fp]
     = Num (2251799913685249 / 2 ^ 51)"
  "value_fp bowl [Num 1 + eps_hessian_fp + eps_hessian_fp - eps_hessian_fp + eps_hessian_fp
                    - eps_hessian_fp]
     = Num (2251799913685249 / 2 ^ 51)"
  by (simp_all add: bowl_def quadratic_problem_def quadratic_fp_def mat_vec_def dot_def
        minus_double_def eps_hessian_val rounding)

lemma bowl_entry:
  "hessian_entry0_fp bowl [Num 1] 0 0 = Num (2535301200456459 / 2 ^ 50)"
  unfolding hessian_entry0_fp_def Let_def
  by (simp add: bowl_values) (simp add: minus_double_def eps_hessian_val rounding)

text \<open>
  C6.  The code fails the claim.  For the quadratic \<open>0.5 * x\<^sup>T A x - b\<^sup>T x\<close> with \<open>A = [[2]]\<close> and
  \<open>b = [0]\<close> at \<open>x = [1]\<close>, \<open>finiteHessian\<close> at accuracy 0 assigns the double
  \<open>2.251799813685248\<close>, which is not within \<open>1e-4\<close> of \<open>A(0,0) = 2\<close>: the numerator
  \<open>f1 - f2 - f3 + f4\<close> is \<open>5 * 2^-52\<close>, five units in the last place of \<open>value(x)\<close>, and the
  divisor \<open>eps * eps\<close> is about \<open>4.93e-16\<close>.
\<close>

theorem finiteHessian_quadratic_diverges:
  "finiteHessian_fp bowl [Num 1] [[Num 0]] 0 = Inr [[Num (2535301200456459 / 2 ^ 50)]]
   \<and> \<not> \<bar>2535301200456459 / 2 ^ 50 - (2 :: real)\<bar> \<le> 1 / 10 ^ 4"
proof -
  have "finiteHessian_fp bowl [Num 1] [[Num 0]] 0 = Inr [[hessian_entry0_fp bowl [Num 1] 0 0]]"
    by (simp add: finiteHessian_fp_def hessian_entry_fp_def set_coeff_fp_def)
  moreover have "\<not> \<bar>2535301200456459 / 2 ^ 50 - (2 :: real)\<bar> \<le> 1 / 10 ^ 4"
    by simp
  ultimately show ?thesis by (simp only: bowl_entry) simp
qed

end
